theory Spec2Isabelle
  imports Complex_Main
begin

section \<open>Numbers of the arrays\<close>

text \<open>
  The arrays of \<^verbatim>\<open>HARPIA_Analysis_Functions.py\<close> hold NumPy doubles. A double is
  modelled as an exact rational or one of the three special values; rounding, overflow
  to an infinity and the sign of a zero are not modelled (a zero divisor counts as +0).
\<close>

datatype fl = Fin rat | PInf | NInf | NaN

fun is_nan :: "fl \<Rightarrow> bool" where
  "is_nan NaN = True"
| "is_nan _ = False"

fun is_fin :: "fl \<Rightarrow> bool" where
  "is_fin (Fin _) = True"
| "is_fin _ = False"

fun fl_neg :: "fl \<Rightarrow> fl" where
  "fl_neg (Fin a) = Fin (- a)"
| "fl_neg PInf = NInf"
| "fl_neg NInf = PInf"
| "fl_neg NaN = NaN"

fun fl_add :: "fl \<Rightarrow> fl \<Rightarrow> fl" where
  "fl_add (Fin a) (Fin b) = Fin (a + b)"
| "fl_add NaN _ = NaN"
| "fl_add _ NaN = NaN"
| "fl_add PInf NInf = NaN"
| "fl_add NInf PInf = NaN"
| "fl_add PInf _ = PInf"
| "fl_add _ PInf = PInf"
| "fl_add NInf _ = NInf"
| "fl_add _ NInf = NInf"

definition fl_sub :: "fl \<Rightarrow> fl \<Rightarrow> fl" where
  "fl_sub a b = fl_add a (fl_neg b)"

text \<open>An infinity with the sign of \<open>s\<close>; the product of an infinity and zero is NaN.\<close>

definition signed_inf :: "rat \<Rightarrow> fl" where
  "signed_inf s = (if s = 0 then NaN else if 0 < s then PInf else NInf)"

fun fl_mul :: "fl \<Rightarrow> fl \<Rightarrow> fl" where
  "fl_mul (Fin a) (Fin b) = Fin (a * b)"
| "fl_mul NaN _ = NaN"
| "fl_mul _ NaN = NaN"
| "fl_mul (Fin a) PInf = signed_inf a"
| "fl_mul (Fin a) NInf = signed_inf (- a)"
| "fl_mul PInf (Fin b) = signed_inf b"
| "fl_mul NInf (Fin b) = signed_inf (- b)"
| "fl_mul PInf PInf = PInf"
| "fl_mul NInf NInf = PInf"
| "fl_mul PInf NInf = NInf"
| "fl_mul NInf PInf = NInf"

text \<open>
  NumPy's true division does not raise: a nonzero number over zero is an infinity,
  zero over zero and infinity over infinity are NaN.
\<close>

fun fl_div :: "fl \<Rightarrow> fl \<Rightarrow> fl" where
  "fl_div (Fin a) (Fin b) = (if b = 0 then signed_inf a else Fin (a / b))"
| "fl_div NaN _ = NaN"
| "fl_div _ NaN = NaN"
| "fl_div (Fin a) PInf = Fin 0"
| "fl_div (Fin a) NInf = Fin 0"
| "fl_div PInf (Fin b) = (if 0 \<le> b then PInf else NInf)"
| "fl_div NInf (Fin b) = (if 0 \<le> b then NInf else PInf)"
| "fl_div PInf PInf = NaN"
| "fl_div PInf NInf = NaN"
| "fl_div NInf PInf = NaN"
| "fl_div NInf NInf = NaN"

fun fl_abs :: "fl \<Rightarrow> fl" where
  "fl_abs (Fin a) = Fin \<bar>a\<bar>"
| "fl_abs PInf = PInf"
| "fl_abs NInf = PInf"
| "fl_abs NaN = NaN"

text \<open>The comparison \<^verbatim>\<open>a >= b\<close> of doubles: false as soon as one side is NaN.\<close>

fun fl_ge :: "fl \<Rightarrow> fl \<Rightarrow> bool" where
  "fl_ge NaN _ = False"
| "fl_ge _ NaN = False"
| "fl_ge (Fin a) (Fin b) = (b \<le> a)"
| "fl_ge PInf _ = True"
| "fl_ge _ NInf = True"
| "fl_ge _ PInf = False"
| "fl_ge NInf _ = False"

section \<open>The NumPy operations the functions call\<close>

datatype error = IndexError | ValueError

text \<open>
  \<^verbatim>\<open>np.argmin\<close> on a one-dimensional array: the first index of the minimum, a NaN
  counting as minimal (the scan stops at the first NaN); ValueError on an empty array.
\<close>

fun argmin_loop :: "fl \<Rightarrow> nat \<Rightarrow> nat \<Rightarrow> fl list \<Rightarrow> nat" where
  "argmin_loop mp min_ind i [] = min_ind"
| "argmin_loop mp min_ind i (x # xs) =
     (if \<not> fl_ge x mp
      then (if is_nan x then i else argmin_loop x i (Suc i) xs)
      else argmin_loop mp min_ind (Suc i) xs)"

definition argmin :: "fl list \<Rightarrow> error + nat" where
  "argmin xs =
     (case xs of
        [] \<Rightarrow> Inl ValueError
      | x # rest \<Rightarrow> if is_nan x then Inr 0 else Inr (argmin_loop x 0 1 rest))"

text \<open>
  \<^verbatim>\<open>ndarray.max()\<close>: the maximum, NaN as soon as one entry is NaN; ValueError on an
  empty array.
\<close>

definition fl_max2 :: "fl \<Rightarrow> fl \<Rightarrow> fl" where
  "fl_max2 a b = (if is_nan a then a else if is_nan b then b else if fl_ge a b then a else b)"

definition amax :: "fl list \<Rightarrow> error + fl" where
  "amax xs = (case xs of [] \<Rightarrow> Inl ValueError | x # rest \<Rightarrow> Inr (foldl fl_max2 x rest))"

text \<open>
  \<^verbatim>\<open>mean\<close> along an axis: the sum over the count. Over an empty slice it is
  \<open>0 / 0\<close>, that is NaN (NumPy warns and does not raise).
\<close>

definition np_sum :: "fl list \<Rightarrow> fl" where
  "np_sum xs = foldl fl_add (Fin 0) xs"

definition np_mean :: "fl list \<Rightarrow> fl" where
  "np_mean xs = fl_div (np_sum xs) (Fin (of_nat (length xs)))"

text \<open>
  The slice \<^verbatim>\<open>a[lo:hi]\<close> for indices that are not negative: it is clipped to the
  array and empty when \<open>hi \<le> lo\<close>.
\<close>

definition slice :: "nat \<Rightarrow> nat \<Rightarrow> 'a list \<Rightarrow> 'a list" where
  "slice lo hi xs = take (hi - lo) (drop lo xs)"

section \<open>load_TA\<close>

text \<open>
  A file is its lines, a line its whitespace-separated cells after the comment has been
  removed. \<open>Num v\<close> is a cell that Python's \<^verbatim>\<open>float\<close> reads as \<open>v\<close>, \<open>Txt s\<close>
  any other cell.
\<close>

datatype cell = Num fl | Txt string

type_synonym ta_file = "cell list list"

text \<open>
  \<^verbatim>\<open>np.genfromtxt(fname, skip_header=2)\<close> with its defaults: the first two lines
  are skipped whatever they hold, lines without cells are passed over, every other line
  must have as many cells as the first one (ValueError otherwise), and a cell that is
  not a number is converted to NaN (the default \<^verbatim>\<open>loose=True\<close>).
\<close>

fun convert :: "cell \<Rightarrow> fl" where
  "convert (Num v) = v"
| "convert (Txt s) = NaN"

definition genfromtxt :: "ta_file \<Rightarrow> error + fl list list" where
  "genfromtxt f =
     (let rows = filter (\<lambda>l. l \<noteq> []) (drop 2 f) in
      case rows of
        [] \<Rightarrow> Inr []
      | r # _ \<Rightarrow>
          if list_ex (\<lambda>l. length l \<noteq> length r) rows then Inl ValueError
          else Inr (map (map convert) rows))"

text \<open>
  The result of \<^verbatim>\<open>genfromtxt\<close> is squeezed: it has two dimensions only when it has
  at least two rows and two columns. \<^verbatim>\<open>data[0,1:]\<close> on an array of fewer dimensions
  raises IndexError.
\<close>

definition ndim :: "fl list list \<Rightarrow> nat" where
  "ndim data =
     (case data of
        [] \<Rightarrow> 1
      | r # _ \<Rightarrow> (if 1 < length data then 1 else 0) + (if 1 < length r then 1 else 0))"

definition load_TA :: "ta_file \<Rightarrow> error + (fl list \<times> fl list \<times> fl list list)" where
  "load_TA fname =
     (case genfromtxt fname of
        Inl e \<Rightarrow> Inl e
      | Inr data \<Rightarrow>
          if ndim data < 2 then Inl IndexError
          else
            let wavelengths = tl (hd data);
                timepoints = map hd (tl data);
                intensities = map tl (tl data)
            in Inr (wavelengths, timepoints, intensities))"

text \<open>
  The input on which \<open>load_TA\<close> returns, stated on the lines of the file: after the two
  header lines there are at least two lines with cells, and they all have the same
  number of cells, at least two.
\<close>

definition data_rows :: "ta_file \<Rightarrow> cell list list" where
  "data_rows f = filter (\<lambda>l. l \<noteq> []) (drop 2 f)"

definition well_formed :: "ta_file \<Rightarrow> bool" where
  "well_formed f =
     (1 < length (data_rows f) \<and> 1 < length (hd (data_rows f)) \<and>
      list_all (\<lambda>l. length l = length (hd (data_rows f))) (data_rows f))"

section \<open>Nearest-match resolution\<close>

text \<open>
  \<^verbatim>\<open>np.argmin(np.abs(axis - v))\<close>, the expression of lines 34, 36 and 66, and the
  list comprehension over the requested values around it.
\<close>

definition nearest_index :: "fl list \<Rightarrow> fl \<Rightarrow> error + nat" where
  "nearest_index axis v = argmin (map (\<lambda>a. fl_abs (fl_sub a v)) axis)"

fun resolve :: "fl list \<Rightarrow> fl list \<Rightarrow> error + nat list" where
  "resolve axis [] = Inr []"
| "resolve axis (v # vs) =
     (case nearest_index axis v of
        Inl e \<Rightarrow> Inl e
      | Inr i \<Rightarrow> (case resolve axis vs of Inl e \<Rightarrow> Inl e | Inr js \<Rightarrow> Inr (i # js)))"

section \<open>plot_bleach\<close>

text \<open>Line 67: \<^verbatim>\<open>intensities[:,wls[0]:wls[1]].mean(axis=1)\<close>.\<close>

definition raw_signal :: "fl list list \<Rightarrow> nat \<Rightarrow> nat \<Rightarrow> fl list" where
  "raw_signal intensities lo hi = map (\<lambda>row. np_mean (slice lo hi row)) intensities"

text \<open>Lines 69 to 72, the unit transform.\<close>

definition unit_transform :: "bool \<Rightarrow> fl \<Rightarrow> fl list \<Rightarrow> fl list" where
  "unit_transform mOD constant signal =
     (if \<not> mOD then map (\<lambda>s. fl_add (fl_mul (Fin (- 2.28)) s) constant) signal
      else map (\<lambda>s. fl_sub s constant) signal)"

text \<open>
  Lines 73 to 75. \<^verbatim>\<open>timepoints[signal_max]\<close> raises IndexError out of range.
\<close>

definition truncate ::
  "bool \<Rightarrow> nat \<Rightarrow> fl list \<Rightarrow> fl list \<Rightarrow> error + (fl list \<times> fl list)" where
  "truncate from_max signal_max timepoints signal =
     (if from_max then
        (if signal_max < length timepoints
         then Inr (map (\<lambda>t. fl_sub t (timepoints ! signal_max)) (drop signal_max timepoints),
                   drop signal_max signal)
         else Inl IndexError)
      else Inr (timepoints, signal))"

text \<open>Lines 76 and 77.\<close>

definition normalise_signal :: "bool \<Rightarrow> fl list \<Rightarrow> error + fl list" where
  "normalise_signal normalise signal =
     (if normalise then
        (case amax signal of Inl e \<Rightarrow> Inl e | Inr m \<Rightarrow> Inr (map (\<lambda>s. fl_div s m) signal))
      else Inr signal)"

text \<open>
  The function returns the array of the two rows \<open>timepoints\<close> and \<open>signal\<close>, here a
  pair. The calls that draw on the canvas and the \<open>label\<close> they use are left out.
\<close>

definition plot_bleach ::
  "ta_file \<Rightarrow> fl list \<Rightarrow> bool \<Rightarrow> bool \<Rightarrow> bool \<Rightarrow> fl \<Rightarrow> error + (fl list \<times> fl list)" where
  "plot_bleach fname wls normalise mOD from_max constant =
     (case load_TA fname of
        Inl e \<Rightarrow> Inl e
      | Inr (wavelengths, timepoints, intensities) \<Rightarrow>
          (case resolve wavelengths wls of
             Inl e \<Rightarrow> Inl e
           | Inr [] \<Rightarrow> Inl IndexError
           | Inr [_] \<Rightarrow> Inl IndexError
           | Inr (lo # hi # _) \<Rightarrow>
               let signal = raw_signal intensities lo hi in
               (case argmin signal of
                  Inl e \<Rightarrow> Inl e
                | Inr signal_max \<Rightarrow>
                    (case truncate from_max signal_max timepoints
                            (unit_transform mOD constant signal) of
                       Inl e \<Rightarrow> Inl e
                     | Inr (timepoints', signal') \<Rightarrow>
                         (case normalise_signal normalise signal' of
                            Inl e \<Rightarrow> Inl e
                          | Inr signal'' \<Rightarrow> Inr (timepoints', signal''))))))"

text \<open>The grid of the scenario: two header lines, the wavelength row, three time rows.\<close>

definition scenario_file :: ta_file where
  "scenario_file =
     [[Txt ''header''], [Txt ''header''],
      [Num (Fin 0), Num (Fin 500), Num (Fin 600), Num (Fin 700)],
      [Num (Fin 0), Num (Fin 1), Num (Fin 2), Num (Fin 3)],
      [Num (Fin 1), Num (Fin 4), Num (Fin 5), Num (Fin 6)],
      [Num (Fin 2), Num (Fin 7), Num (Fin 8), Num (Fin 9)]]"

text \<open>
  A grid whose window mean has its minimum at the second time row: wavelengths 500, 600,
  700, timepoints 5, 7, 10.
\<close>

definition bleach_file :: ta_file where
  "bleach_file =
     [[Txt ''header''], [Txt ''header''],
      [Num (Fin 0), Num (Fin 500), Num (Fin 600), Num (Fin 700)],
      [Num (Fin 5), Num (Fin 0), Num (Fin 0), Num (Fin 0)],
      [Num (Fin 7), Num (Fin (- 4)), Num (Fin (- 2)), Num (Fin 0)],
      [Num (Fin 10), Num (Fin (- 2)), Num (Fin 0), Num (Fin 0)]]"

section \<open>extract_pump_values\<close>

text \<open>
  The log is its lines, each a string of Unicode code points, as Python reads a text
  file. \<^verbatim>\<open>\d\<close> matches every Unicode decimal digit, and \<^verbatim>\<open>float\<close> reads each of them
  with its decimal value. The table of these digits is not part of the repository: it is
  the parameter \<open>dv\<close>, with \<open>dv c = Some v\<close> for a decimal digit \<open>c\<close> of value \<open>v\<close>. Of the
  ASCII characters, the decimal digits are 0 to 9.
\<close>

type_synonym ustring = "nat list"

definition cps :: "string \<Rightarrow> ustring" where
  "cps s = map of_char s"

definition decimal_table :: "(nat \<Rightarrow> nat option) \<Rightarrow> bool" where
  "decimal_table dv =
     ((\<forall>c<128. dv c = (if 48 \<le> c \<and> c \<le> 57 then Some (c - 48) else None)) \<and>
      (\<forall>c v. dv c = Some v \<longrightarrow> v < 10))"

definition is_digit :: "(nat \<Rightarrow> nat option) \<Rightarrow> nat \<Rightarrow> bool" where
  "is_digit dv c = (dv c \<noteq> None)"

definition digit_val :: "(nat \<Rightarrow> nat option) \<Rightarrow> nat \<Rightarrow> nat" where
  "digit_val dv c = (case dv c of None \<Rightarrow> 0 | Some v \<Rightarrow> v)"

definition digits_val :: "(nat \<Rightarrow> nat option) \<Rightarrow> ustring \<Rightarrow> nat" where
  "digits_val dv ds = foldl (\<lambda>a c. 10 * a + digit_val dv c) 0 ds"

text \<open>
  Group 1 of a match of \<^verbatim>\<open>Pump=(\d+\.\d+e[+-]?\d+)\<close>, kept as its parts: the digits
  before the point, the digits after it, whether the exponent has a minus sign, and the
  digits of the exponent. Every repetition is greedy and is followed by a character
  outside its class, so a match at a position, if there is one, is the one that takes
  the longest runs of digits.
\<close>

type_synonym group = "ustring \<times> ustring \<times> bool \<times> ustring"

definition match_here :: "(nat \<Rightarrow> nat option) \<Rightarrow> ustring \<Rightarrow> group option" where
  "match_here dv s =
     (if take 5 s \<noteq> cps ''Pump='' then None
      else
        let r = drop 5 s;
            d1 = takeWhile (is_digit dv) r;
            r1 = dropWhile (is_digit dv) r
        in
        if d1 = [] \<or> take 1 r1 \<noteq> cps ''.'' then None
        else
          let r2 = drop 1 r1;
              d2 = takeWhile (is_digit dv) r2;
              r3 = dropWhile (is_digit dv) r2
          in
          if d2 = [] \<or> take 1 r3 \<noteq> cps ''e'' then None
          else
            let r4 = drop 1 r3;
                neg = (take 1 r4 = cps ''-'');
                r5 = (if take 1 r4 = cps ''-'' \<or> take 1 r4 = cps ''+'' then drop 1 r4 else r4);
                d3 = takeWhile (is_digit dv) r5
            in if d3 = [] then None else Some (d1, d2, neg, d3))"

text \<open>\<^verbatim>\<open>re.search\<close>: the match at the leftmost position that has one.\<close>

fun re_search :: "(nat \<Rightarrow> nat option) \<Rightarrow> ustring \<Rightarrow> group option" where
  "re_search dv [] = None"
| "re_search dv (c # cs) =
     (case match_here dv (c # cs) of Some g \<Rightarrow> Some g | None \<Rightarrow> re_search dv cs)"

text \<open>
  \<^verbatim>\<open>float\<close> of a decimal literal without sign, as far as the range of a double goes:
  from half way between the largest double and \<open>2 ^ 1024\<close> on the result is the
  infinity, up to half the smallest positive double it is zero. Between the two, the
  rounding to the nearest double is not modelled.
\<close>

definition py_float :: "rat \<Rightarrow> fl" where
  "py_float q =
     (if 2 ^ 1024 - 2 ^ 970 \<le> q then PInf
      else if q \<le> 1 / 2 ^ 1075 then Fin 0
      else Fin q)"

text \<open>\<^verbatim>\<open>float(match.group(1))\<close>: the decimal number the group denotes.\<close>

fun float_of_group :: "(nat \<Rightarrow> nat option) \<Rightarrow> group \<Rightarrow> fl" where
  "float_of_group dv (d1, d2, neg, d3) =
     py_float (of_nat (digits_val dv (d1 @ d2)) / 10 ^ length d2
               * (if neg then 1 / 10 ^ digits_val dv d3 else 10 ^ digits_val dv d3))"

text \<open>Lines 96 to 102: the loop over the lines, appending to \<open>pump_values\<close>.\<close>

fun pump_loop :: "(nat \<Rightarrow> nat option) \<Rightarrow> ustring list \<Rightarrow> fl list \<Rightarrow> fl list" where
  "pump_loop dv [] pump_values = pump_values"
| "pump_loop dv (line # rest) pump_values =
     (case re_search dv line of
        Some g \<Rightarrow> pump_loop dv rest (pump_values @ [float_of_group dv g])
      | None \<Rightarrow> pump_loop dv rest pump_values)"

text \<open>Line 111.\<close>

definition percentage_deviation :: "fl list \<Rightarrow> fl list" where
  "percentage_deviation pump_values =
     map (\<lambda>v. fl_mul (fl_div (fl_sub (np_mean pump_values) v) (np_mean pump_values)) (Fin 100))
       pump_values"

text \<open>
  The function returns nothing; the model gives the two sequences it computes. The
  percentiles of line 112 and 113 and the plots are left out.
\<close>

definition extract_pump_values ::
  "(nat \<Rightarrow> nat option) \<Rightarrow> ustring list \<Rightarrow> fl list \<times> fl list" where
  "extract_pump_values dv file =
     (let pump_values = pump_loop dv file []
      in (pump_values, percentage_deviation pump_values))"

text \<open>
  What the pattern means, stated without the search. A run of digits is not empty; its
  number is the sum of the values of its digits, each times the power of ten of its
  place. A token is a run, a point, a run, the letter e, an optional sign and a run; a
  string starts with a match when it is \<open>Pump=\<close>, a token and a rest.
\<close>

definition digit_run :: "(nat \<Rightarrow> nat option) \<Rightarrow> ustring \<Rightarrow> bool" where
  "digit_run dv ds = (ds \<noteq> [] \<and> list_all (is_digit dv) ds)"

definition positional :: "(nat \<Rightarrow> nat option) \<Rightarrow> ustring \<Rightarrow> nat" where
  "positional dv ds = (\<Sum>i<length ds. digit_val dv (ds ! i) * 10 ^ (length ds - Suc i))"

definition pump_token :: "(nat \<Rightarrow> nat option) \<Rightarrow> ustring \<Rightarrow> bool" where
  "pump_token dv t =
     (\<exists>d1 d2 sg d3. t = d1 @ cps ''.'' @ d2 @ cps ''e'' @ sg @ d3 \<and>
        digit_run dv d1 \<and> digit_run dv d2 \<and>
        (sg = [] \<or> sg = cps ''+'' \<or> sg = cps ''-'') \<and> digit_run dv d3)"

definition starts_pump :: "(nat \<Rightarrow> nat option) \<Rightarrow> ustring \<Rightarrow> bool" where
  "starts_pump dv s = (\<exists>t post. s = cps ''Pump='' @ t @ post \<and> pump_token dv t)"

definition contains_pump :: "(nat \<Rightarrow> nat option) \<Rightarrow> ustring \<Rightarrow> bool" where
  "contains_pump dv l = (\<exists>pre s. l = pre @ s \<and> starts_pump dv s)"

text \<open>
  A table for the examples: the ASCII digits and the Arabic-Indic digits U+0660 to
  U+0669.
\<close>

definition two_scripts :: "nat \<Rightarrow> nat option" where
  "two_scripts c =
     (if 48 \<le> c \<and> c \<le> 57 then Some (c - 48)
      else if 1632 \<le> c \<and> c \<le> 1641 then Some (c - 1632)
      else None)"

definition scenario_log :: "ustring list" where
  "scenario_log = map cps [''Pump=1.0e+00'', ''Pump=2.0e+00'', ''noise'']"


section \<open>Auxiliary facts\<close>

lemma fl_add_zero: "fl_add x (Fin 0) = x"
  by (cases x) simp_all

lemma fl_sub_zero: "fl_sub x (Fin 0) = x"
  by (cases x) (simp_all add: fl_sub_def)

lemma fl_sub_self: "is_fin x \<Longrightarrow> fl_sub x x = Fin 0"
  by (cases x) (simp_all add: fl_sub_def)

lemma fl_sub_Fin: "fl_sub (Fin a) (Fin b) = Fin (a - b)"
  by (simp add: fl_sub_def)


lemma fl_ge_refl: "\<not> is_nan a \<Longrightarrow> fl_ge a a"
  by (cases a) simp_all

lemma fl_ge_trans: "fl_ge a b \<Longrightarrow> fl_ge b c \<Longrightarrow> fl_ge a c"
  by (cases a; cases b; cases c) simp_all

lemma fl_ge_total: "\<not> is_nan a \<Longrightarrow> \<not> is_nan b \<Longrightarrow> fl_ge a b \<or> fl_ge b a"
  by (cases a; cases b) auto


lemma foldl_fl_add_Fin: "foldl fl_add (Fin a) (map Fin qs) = Fin (a + sum_list qs)"
  by (induction qs arbitrary: a) (simp_all add: add.assoc)

lemma np_sum_Fin: "np_sum (map Fin qs) = Fin (sum_list qs)"
  by (simp add: np_sum_def foldl_fl_add_Fin)

lemma np_mean_Fin:
  "qs \<noteq> [] \<Longrightarrow> np_mean (map Fin qs) = Fin (sum_list qs / of_nat (length qs))"
  by (simp add: np_mean_def np_sum_Fin)

lemma np_mean_Nil: "np_mean [] = NaN"
  by (simp add: np_mean_def np_sum_def signed_inf_def)

lemma slice_empty: "hi \<le> lo \<Longrightarrow> slice lo hi xs = []"
  by (simp add: slice_def)

lemma slice_nth:
  "lo \<le> hi \<Longrightarrow> hi \<le> length xs \<Longrightarrow> slice lo hi xs = map (\<lambda>j. xs ! j) [lo..<hi]"
  by (simp add: slice_def list_eq_iff_nth_eq)

lemma slice_butlast: "slice 0 (length xs - 1) xs = butlast xs"
  by (simp add: slice_def butlast_conv_take)

lemma argmin_loop_bound: "m < i \<Longrightarrow> argmin_loop mp m i ys < i + length ys"
proof (induction ys arbitrary: mp m i)
  case Nil
  then show ?case by simp
next
  case (Cons x xs)
  from Cons.prems have "m < Suc i" by simp
  then have a: "argmin_loop mp m (Suc i) xs < Suc i + length xs"
    by (rule Cons.IH)
  have b: "argmin_loop x i (Suc i) xs < Suc i + length xs"
    by (rule Cons.IH) simp
  from a b show ?case by simp
qed

lemma argmin_bound: "xs \<noteq> [] \<Longrightarrow> \<exists>k. argmin xs = Inr k \<and> k < length xs"
proof (cases xs)
  case Nil
  assume "xs \<noteq> []"
  with Nil show ?thesis by simp
next
  case (Cons x rest)
  have "argmin_loop x 0 1 rest < 1 + length rest"
    by (rule argmin_loop_bound) simp
  with Cons show ?thesis by (simp add: argmin_def)
qed

lemma argmin_loop_first_min:
  assumes "length pre = i" and "m < i" and "pre ! m = mp" and "\<not> is_nan mp"
    and "\<forall>j<i. fl_ge (pre ! j) mp" and "\<forall>j<m. \<not> fl_ge mp (pre ! j)"
    and "\<forall>y\<in>set ys. \<not> is_nan y"
  shows "(\<forall>j<length (pre @ ys). fl_ge ((pre @ ys) ! j) ((pre @ ys) ! argmin_loop mp m i ys)) \<and>
         (\<forall>j<argmin_loop mp m i ys. \<not> fl_ge ((pre @ ys) ! argmin_loop mp m i ys) ((pre @ ys) ! j))"
  using assms
proof (induction ys arbitrary: pre i m mp)
  case Nil
  then show ?case by simp
next
  case (Cons x xs)
  have xn: "\<not> is_nan x" and xsn: "\<forall>y\<in>set xs. \<not> is_nan y"
    using Cons.prems(7) by simp_all
  have len: "length (pre @ [x]) = Suc i"
    using Cons.prems(1) by simp
  show ?case
  proof (cases "fl_ge x mp")
    case True
    have a: "\<forall>j<Suc i. fl_ge ((pre @ [x]) ! j) mp"
      using Cons.prems(1,5) True by (auto simp: less_Suc_eq nth_append)
    have b: "(pre @ [x]) ! m = mp"
      using Cons.prems(1,2,3) by (simp add: nth_append)
    have c: "\<forall>j<m. \<not> fl_ge mp ((pre @ [x]) ! j)"
      using Cons.prems(1,2,6) by (simp add: nth_append)
    have m: "m < Suc i"
      using Cons.prems(2) by simp
    from Cons.IH [OF len m b Cons.prems(4) a c xsn] True
    show ?thesis by simp
  next
    case False
    with xn Cons.prems(4) have lt: "fl_ge mp x"
      using fl_ge_total by blast
    have a: "\<forall>j<Suc i. fl_ge ((pre @ [x]) ! j) x"
    proof (intro allI impI)
      fix j assume "j < Suc i"
      then consider "j < i" | "j = i" by linarith
      then show "fl_ge ((pre @ [x]) ! j) x"
      proof cases
        case 1
        with Cons.prems(5) have "fl_ge (pre ! j) mp" by simp
        then have "fl_ge (pre ! j) x" using lt by (rule fl_ge_trans)
        with 1 Cons.prems(1) show ?thesis by (simp add: nth_append)
      next
        case 2
        with Cons.prems(1) xn show ?thesis by (simp add: fl_ge_refl nth_append)
      qed
    qed
    have b: "(pre @ [x]) ! i = x"
      using Cons.prems(1) by (simp add: nth_append)
    have c: "\<forall>j<i. \<not> fl_ge x ((pre @ [x]) ! j)"
    proof (intro allI impI notI)
      fix j assume j: "j < i" and ge: "fl_ge x ((pre @ [x]) ! j)"
      from j Cons.prems(1) ge have "fl_ge x (pre ! j)" by (simp add: nth_append)
      moreover from j Cons.prems(5) have "fl_ge (pre ! j) mp" by simp
      ultimately have "fl_ge x mp" by (rule fl_ge_trans)
      with False show False by simp
    qed
    from Cons.IH [OF len lessI b xn a c xsn] False xn
    show ?thesis by simp
  qed
qed

lemma argmin_first_min:
  assumes "argmin xs = Inr k" and "\<forall>x\<in>set xs. \<not> is_nan x"
  shows "(\<forall>j<length xs. fl_ge (xs ! j) (xs ! k)) \<and> (\<forall>j<k. \<not> fl_ge (xs ! k) (xs ! j))"
proof (cases xs)
  case Nil
  with assms(1) show ?thesis by (simp add: argmin_def)
next
  case (Cons x rest)
  with assms(2) have xn: "\<not> is_nan x" and rn: "\<forall>y\<in>set rest. \<not> is_nan y"
    by simp_all
  from Cons assms(1) xn have k: "k = argmin_loop x 0 1 rest"
    by (simp add: argmin_def)
  have "(\<forall>j<length ([x] @ rest). fl_ge (([x] @ rest) ! j) (([x] @ rest) ! argmin_loop x 0 1 rest)) \<and>
        (\<forall>j<argmin_loop x 0 1 rest. \<not> fl_ge (([x] @ rest) ! argmin_loop x 0 1 rest) (([x] @ rest) ! j))"
    by (rule argmin_loop_first_min) (use xn rn in \<open>simp_all add: fl_ge_refl\<close>)
  with Cons k show ?thesis by simp
qed


lemma fl_max2_nan: "is_nan a \<or> is_nan x \<Longrightarrow> is_nan (fl_max2 a x)"
  by (auto simp: fl_max2_def)

lemma foldl_fl_max2_nan: "is_nan a \<Longrightarrow> is_nan (foldl fl_max2 a xs)"
  by (induction xs arbitrary: a) (simp_all add: fl_max2_nan)



lemma amax_total: "xs \<noteq> [] \<Longrightarrow> \<exists>m. amax xs = Inr m"
  by (cases xs) (simp_all add: amax_def)



lemma genfromtxt_rect:
  assumes "genfromtxt f = Inr data"
  shows "\<forall>row\<in>set data. length row = length (hd data)"
proof (cases "filter (\<lambda>l. l \<noteq> []) (drop 2 f)")
  case Nil
  with assms show ?thesis by (simp add: genfromtxt_def)
next
  case (Cons r rs)
  with assms have ok: "\<not> list_ex (\<lambda>l. length l \<noteq> length r) (r # rs)"
    and data: "data = map (map convert) (r # rs)"
    by (simp_all add: genfromtxt_def split: if_splits)
  from ok have "\<forall>l\<in>set (r # rs). length l = length r"
    by (simp add: list_ex_iff)
  with data show ?thesis by auto
qed

lemma load_TA_data:
  assumes "load_TA f = Inr (wl, tp, I)"
  shows "\<exists>data. genfromtxt f = Inr data \<and> 1 < length data \<and> 1 < length (hd data) \<and>
           wl = tl (hd data) \<and> tp = map hd (tl data) \<and> I = map tl (tl data)"
proof (cases "genfromtxt f")
  case (Inl e)
  with assms show ?thesis by (simp add: load_TA_def)
next
  case (Inr data)
  with assms have nd: "\<not> ndim data < 2"
    and res: "wl = tl (hd data) \<and> tp = map hd (tl data) \<and> I = map tl (tl data)"
    by (simp_all add: load_TA_def Let_def split: if_splits)
  from nd have "1 < length data \<and> 1 < length (hd data)"
    by (cases data) (simp_all add: ndim_def split: if_splits)
  with Inr res show ?thesis by simp
qed

lemma load_TA_shape:
  assumes "load_TA f = Inr (wl, tp, I)"
  shows "length I = length tp \<and> (\<forall>row\<in>set I. length row = length wl) \<and> tp \<noteq> [] \<and> wl \<noteq> []"
proof -
  from load_TA_data [OF assms] obtain data where g: "genfromtxt f = Inr data"
    and n: "1 < length data" "1 < length (hd data)"
    and wl: "wl = tl (hd data)" and tp: "tp = map hd (tl data)" and I: "I = map tl (tl data)"
    by blast
  from n(1) obtain r0 r1 rs where d: "data = r0 # r1 # rs"
    by (cases data; cases "tl data") auto
  have rect: "\<forall>row\<in>set data. length row = length (hd data)"
    using g by (rule genfromtxt_rect)
  have "\<forall>row\<in>set I. length row = length wl"
    using rect I wl d by auto
  moreover have "wl \<noteq> []"
    using n(2) wl by (cases "hd data") auto
  ultimately show ?thesis using tp I d by simp
qed

lemma load_TA_short: "length f < 3 \<Longrightarrow> load_TA f = Inl IndexError"
  by (simp add: load_TA_def genfromtxt_def ndim_def)

lemma load_TA_ragged:
  assumes "l1 \<in> set (drop 2 f)" and "l2 \<in> set (drop 2 f)"
    and "l1 \<noteq> []" and "l2 \<noteq> []" and "length l1 \<noteq> length l2"
  shows "load_TA f = Inl ValueError"
proof -
  let ?rows = "filter (\<lambda>l. l \<noteq> []) (drop 2 f)"
  from assms have m: "l1 \<in> set ?rows" "l2 \<in> set ?rows" by simp_all
  then obtain r rs where rows: "?rows = r # rs" by (cases ?rows) auto
  from m assms(5) have "\<exists>l\<in>set ?rows. length l \<noteq> length r"
    by (cases "length l1 = length r") auto
  then have "list_ex (\<lambda>l. length l \<noteq> length r) (r # rs)"
    unfolding rows by (simp only: list_ex_iff)
  with rows show ?thesis by (simp add: load_TA_def genfromtxt_def)
qed

lemma nearest_index_bound:
  "axis \<noteq> [] \<Longrightarrow> \<exists>k. nearest_index axis v = Inr k \<and> k < length axis"
  using argmin_bound [of "map (\<lambda>a. fl_abs (fl_sub a v)) axis"] by (simp add: nearest_index_def)

lemma resolve_total:
  "axis \<noteq> [] \<Longrightarrow>
     \<exists>js. resolve axis vs = Inr js \<and> length js = length vs \<and> (\<forall>j\<in>set js. j < length axis)"
proof (induction vs)
  case Nil
  then show ?case by simp
next
  case (Cons v vs)
  from Cons.prems obtain k where "nearest_index axis v = Inr k" "k < length axis"
    using nearest_index_bound by blast
  moreover from Cons obtain js where "resolve axis vs = Inr js" "length js = length vs"
    "\<forall>j\<in>set js. j < length axis" by blast
  ultimately show ?case by simp
qed

lemma plot_bleach_run:
  assumes "load_TA f = Inr (wl, tp, I)" and "resolve wl wls = Inr (lo # hi # rest)"
    and "argmin (raw_signal I lo hi) = Inr k"
  shows "plot_bleach f wls normalise mOD from_max c =
           (case truncate from_max k tp (unit_transform mOD c (raw_signal I lo hi)) of
              Inl e \<Rightarrow> Inl e
            | Inr (tp', s') \<Rightarrow>
                (case normalise_signal normalise s' of
                   Inl e \<Rightarrow> Inl e
                 | Inr s'' \<Rightarrow> Inr (tp', s'')))"
  using assms by (simp add: plot_bleach_def)

lemma raw_signal_length: "length (raw_signal I lo hi) = length I"
  by (simp add: raw_signal_def)

lemma unit_transform_length: "length (unit_transform mOD c s) = length s"
  by (simp add: unit_transform_def)

lemma np_mean_window:
  assumes "lo < hi" and "hi \<le> length row" and "\<forall>j<hi. lo \<le> j \<longrightarrow> row ! j = Fin (r j)"
  shows "np_mean (slice lo hi row) = Fin (sum r {lo..<hi} / of_nat (hi - lo))"
proof -
  have "slice lo hi row = map (\<lambda>j. row ! j) [lo..<hi]"
    using assms(1,2) by (simp add: slice_nth)
  also have "\<dots> = map Fin (map r [lo..<hi])"
    using assms(3) by simp
  finally have s: "slice lo hi row = map Fin (map r [lo..<hi])" .
  have ne: "map r [lo..<hi] \<noteq> []"
    using assms(1) by simp
  have "sum_list (map r [lo..<hi]) = sum r {lo..<hi}"
    by (simp add: interv_sum_list_conv_sum_set_nat)
  then show ?thesis
    unfolding s np_mean_Fin [OF ne] by simp
qed

lemma load_resolve_bounds:
  assumes "load_TA f = Inr (wl, tp, I)" and "resolve wl wls = Inr (lo # hi # rest)"
  shows "lo < length wl \<and> hi < length wl"
proof -
  from load_TA_shape [OF assms(1)] have "wl \<noteq> []" by simp
  from resolve_total [OF this, of wls] assms(2) show ?thesis by auto
qed

lemma scenario_load:
  "load_TA scenario_file =
     Inr ([Fin 500, Fin 600, Fin 700], [Fin 0, Fin 1, Fin 2],
          [[Fin 1, Fin 2, Fin 3], [Fin 4, Fin 5, Fin 6], [Fin 7, Fin 8, Fin 9]])"
  by (simp add: load_TA_def genfromtxt_def scenario_file_def ndim_def)

lemma scenario_resolve:
  "resolve [Fin 500, Fin 600, Fin 700] [Fin 500, Fin 700] = Inr [0, 2]"
  by (simp add: nearest_index_def argmin_def fl_sub_def)

lemma scenario_raw:
  "raw_signal [[Fin 1, Fin 2, Fin 3], [Fin 4, Fin 5, Fin 6], [Fin 7, Fin 8, Fin 9]] 0 2 =
     [Fin (3 / 2), Fin (9 / 2), Fin (15 / 2)]"
  by (simp add: raw_signal_def slice_def np_mean_def np_sum_def)

lemma plot_bleach_plain:
  assumes "load_TA f = Inr (wl, tp, I)" and "resolve wl wls = Inr (lo # hi # rest)"
  shows "plot_bleach f wls False mOD False c = Inr (tp, unit_transform mOD c (raw_signal I lo hi))"
proof -
  from load_TA_shape [OF assms(1)] have "raw_signal I lo hi \<noteq> []"
    by (auto simp: raw_signal_def)
  then obtain k where "argmin (raw_signal I lo hi) = Inr k"
    using argmin_bound by blast
  from plot_bleach_run [OF assms this] show ?thesis
    by (simp add: truncate_def normalise_signal_def)
qed

section \<open>The claims\<close>

text \<open>
  C1. For every TA file that loads and every wavelength window, the signal that
  \<open>plot_bleach\<close> computes before the unit transform holds, at every time row \<open>t\<close>, the mean
  of \<open>intensities[t, lo:hi]\<close>: for a window \<open>lo < hi\<close> of finite cells it is their sum over
  \<open>hi - lo\<close>. It is what the call returns when the transform is the identity (\<open>mOD\<close> true,
  constant 0) and nothing is truncated or normalised. On the grid of the scenario,
  \<open>wls = [500, 700]\<close> resolves to the indices 0 and 2 and the signal is 1.5, 4.5, 7.5.
\<close>

theorem plot_bleach_signal_is_window_mean:
  assumes "load_TA f = Inr (wl, tp, I)" and "resolve wl wls = Inr (lo # hi # rest)"
    and "t < length tp"
  shows "raw_signal I lo hi ! t = np_mean (slice lo hi (I ! t)) \<and>
         (lo < hi \<longrightarrow> (\<forall>j<hi. lo \<le> j \<longrightarrow> I ! t ! j = Fin (r j)) \<longrightarrow>
            raw_signal I lo hi ! t = Fin (sum r {lo..<hi} / of_nat (hi - lo))) \<and>
         plot_bleach f wls False True False (Fin 0) = Inr (tp, raw_signal I lo hi) \<and>
         load_TA scenario_file =
           Inr ([Fin 500, Fin 600, Fin 700], [Fin 0, Fin 1, Fin 2],
                [[Fin 1, Fin 2, Fin 3], [Fin 4, Fin 5, Fin 6], [Fin 7, Fin 8, Fin 9]]) \<and>
         resolve [Fin 500, Fin 600, Fin 700] [Fin 500, Fin 700] = Inr [0, 2] \<and>
         raw_signal [[Fin 1, Fin 2, Fin 3], [Fin 4, Fin 5, Fin 6], [Fin 7, Fin 8, Fin 9]] 0 2 =
           [Fin 1.5, Fin 4.5, Fin 7.5]"
proof -
  from load_TA_shape [OF assms(1)] assms(3)
  have t: "t < length I" and row: "length (I ! t) = length wl"
    by simp_all
  from load_resolve_bounds [OF assms(1,2)] row have hi: "hi \<le> length (I ! t)"
    by simp
  have 1: "raw_signal I lo hi ! t = np_mean (slice lo hi (I ! t))"
    using t by (simp add: raw_signal_def)
  have 2: "lo < hi \<longrightarrow> (\<forall>j<hi. lo \<le> j \<longrightarrow> I ! t ! j = Fin (r j)) \<longrightarrow>
            raw_signal I lo hi ! t = Fin (sum r {lo..<hi} / of_nat (hi - lo))"
  proof (intro impI)
    assume a: "lo < hi" and b: "\<forall>j<hi. lo \<le> j \<longrightarrow> I ! t ! j = Fin (r j)"
    show "raw_signal I lo hi ! t = Fin (sum r {lo..<hi} / of_nat (hi - lo))"
      unfolding 1 using a hi b by (rule np_mean_window)
  qed
  have "unit_transform True (Fin 0) (raw_signal I lo hi) = raw_signal I lo hi"
    by (simp add: unit_transform_def fl_sub_zero)
  with plot_bleach_plain [OF assms(1,2), of True "Fin 0"]
  have 3: "plot_bleach f wls False True False (Fin 0) = Inr (tp, raw_signal I lo hi)"
    by simp
  from 1 2 3 scenario_load scenario_resolve scenario_raw show ?thesis
    by simp
qed

theorem plot_bleach_signal_is_window_mean_witness:
  "load_TA scenario_file =
     Inr ([Fin 500, Fin 600, Fin 700], [Fin 0, Fin 1, Fin 2],
          [[Fin 1, Fin 2, Fin 3], [Fin 4, Fin 5, Fin 6], [Fin 7, Fin 8, Fin 9]]) \<and>
   resolve [Fin 500, Fin 600, Fin 700] [Fin 500, Fin 700] = Inr [0, 2] \<and>
   (1::nat) < length [Fin 0, Fin 1, Fin 2] \<and>
   raw_signal [[Fin 1, Fin 2, Fin 3], [Fin 4, Fin 5, Fin 6], [Fin 7, Fin 8, Fin 9]] 0 2 ! 1 =
     Fin ((4 + 5) / 2) \<and>
   plot_bleach scenario_file [Fin 500, Fin 700] False True False (Fin 0) =
     Inr ([Fin 0, Fin 1, Fin 2], [Fin 1.5, Fin 4.5, Fin 7.5])"
proof -
  have t: "(1::nat) < length [Fin 0, Fin 1, Fin 2]" by simp
  note th = plot_bleach_signal_is_window_mean [OF scenario_load scenario_resolve t,
      of "\<lambda>j. if j = 0 then 4 else 5"]
  have "sum (\<lambda>j::nat. if j = 0 then 4 else (5::rat)) {0..<2} = 4 + 5"
    by (simp add: numeral_2_eq_2)
  with th scenario_load scenario_resolve show ?thesis
    by (simp add: less_Suc_eq numeral_2_eq_2)
qed

text \<open>
  C2 (as stated). When the window covers the whole axis (\<open>lo\<close> the first index, \<open>hi\<close> the
  last), the signal would be the mean over all the columns of each row. The grid of the
  scenario with \<open>wls = [500, 700]\<close> is such an input, and its signal is not the row means.
\<close>

theorem whole_axis_window_counterexample:
  "load_TA scenario_file =
     Inr ([Fin 500, Fin 600, Fin 700], [Fin 0, Fin 1, Fin 2],
          [[Fin 1, Fin 2, Fin 3], [Fin 4, Fin 5, Fin 6], [Fin 7, Fin 8, Fin 9]]) \<and>
   resolve [Fin 500, Fin 600, Fin 700] [Fin 500, Fin 700] = Inr [0, length [Fin 500, Fin 600, Fin 700] - 1] \<and>
   raw_signal [[Fin 1, Fin 2, Fin 3], [Fin 4, Fin 5, Fin 6], [Fin 7, Fin 8, Fin 9]] 0 2 =
     [Fin 1.5, Fin 4.5, Fin 7.5] \<and>
   map np_mean [[Fin 1, Fin 2, Fin 3], [Fin 4, Fin 5, Fin 6], [Fin 7, Fin 8, Fin 9]] =
     [Fin 2, Fin 5, Fin 8] \<and>
   raw_signal [[Fin 1, Fin 2, Fin 3], [Fin 4, Fin 5, Fin 6], [Fin 7, Fin 8, Fin 9]] 0 2 \<noteq>
     map np_mean [[Fin 1, Fin 2, Fin 3], [Fin 4, Fin 5, Fin 6], [Fin 7, Fin 8, Fin 9]]"
proof -
  have "map np_mean [[Fin 1, Fin 2, Fin 3], [Fin 4, Fin 5, Fin 6], [Fin 7, Fin 8, Fin 9]] =
     [Fin 2, Fin 5, Fin 8]"
    by (simp add: np_mean_def np_sum_def)
  with scenario_load scenario_resolve scenario_raw show ?thesis
    by simp
qed

text \<open>
  C2 (amended). When the window covers the whole axis, the slice \<open>lo:hi\<close> leaves the last
  column out: the signal is, at every time row, the mean over all the columns but the
  last one.
\<close>

theorem whole_axis_window_excludes_last_column:
  assumes "load_TA f = Inr (wl, tp, I)" and "resolve wl wls = Inr (lo # hi # rest)"
    and "lo = 0" and "hi = length wl - 1" and "t < length tp"
  shows "raw_signal I lo hi ! t = np_mean (butlast (I ! t))"
proof -
  from load_TA_shape [OF assms(1)] assms(5)
  have t: "t < length I" and row: "length (I ! t) = length wl"
    by simp_all
  have "slice lo hi (I ! t) = butlast (I ! t)"
    unfolding assms(3,4) row [symmetric] by (rule slice_butlast)
  with t show ?thesis by (simp add: raw_signal_def)
qed

theorem whole_axis_window_excludes_last_column_witness:
  "load_TA scenario_file =
     Inr ([Fin 500, Fin 600, Fin 700], [Fin 0, Fin 1, Fin 2],
          [[Fin 1, Fin 2, Fin 3], [Fin 4, Fin 5, Fin 6], [Fin 7, Fin 8, Fin 9]]) \<and>
   resolve [Fin 500, Fin 600, Fin 700] [Fin 500, Fin 700] = Inr [0, 2] \<and>
   (2::nat) = length [Fin 500, Fin 600, Fin 700] - 1 \<and>
   (1::nat) < length [Fin 0, Fin 1, Fin 2] \<and>
   raw_signal [[Fin 1, Fin 2, Fin 3], [Fin 4, Fin 5, Fin 6], [Fin 7, Fin 8, Fin 9]] 0 2 ! 1 =
     np_mean [Fin 4, Fin 5]"
proof -
  have h: "(2::nat) = length [Fin 500, Fin 600, Fin 700] - 1"
    and t: "(1::nat) < length [Fin 0, Fin 1, Fin 2]"
    by simp_all
  from whole_axis_window_excludes_last_column [OF scenario_load scenario_resolve refl h t]
    scenario_load scenario_resolve
  show ?thesis by simp
qed

lemma plot_bleach_from_max:
  assumes "load_TA f = Inr (wl, tp, I)" and "resolve wl wls = Inr (lo # hi # rest)"
  shows "\<exists>k. argmin (raw_signal I lo hi) = Inr k \<and> k < length tp \<and>
           plot_bleach f wls False mOD True c =
             Inr (map (\<lambda>t. fl_sub t (tp ! k)) (drop k tp),
                  drop k (unit_transform mOD c (raw_signal I lo hi)))"
proof -
  from load_TA_shape [OF assms(1)] have len: "length (raw_signal I lo hi) = length tp"
    and ne: "raw_signal I lo hi \<noteq> []"
    by (auto simp: raw_signal_def)
  from argmin_bound [OF ne] obtain k where k: "argmin (raw_signal I lo hi) = Inr k"
    and kl: "k < length (raw_signal I lo hi)"
    by blast
  from plot_bleach_run [OF assms k, of False mOD True c] kl len
  have "plot_bleach f wls False mOD True c =
             Inr (map (\<lambda>t. fl_sub t (tp ! k)) (drop k tp),
                  drop k (unit_transform mOD c (raw_signal I lo hi)))"
    by (simp add: truncate_def normalise_signal_def)
  with k kl len show ?thesis by auto
qed

text \<open>
  C3. The unit transform of \<open>plot_bleach\<close> is \<open>-2.28 * signal + constant\<close> when \<open>mOD\<close> is
  false and \<open>signal - constant\<close> when it is true, as the returned signal shows when it is
  neither truncated nor normalised. With \<open>mOD\<close> false and the constant 0 the transformed
  signal is \<open>-2.28\<close> times the window mean, truncated from the index of the minimum when
  \<open>from_max\<close> is true.
\<close>

theorem plot_bleach_unit_transform:
  assumes "load_TA f = Inr (wl, tp, I)" and "resolve wl wls = Inr (lo # hi # rest)"
  shows "plot_bleach f wls False False False c =
           Inr (tp, map (\<lambda>s. fl_add (fl_mul (Fin (- 2.28)) s) c) (raw_signal I lo hi)) \<and>
         plot_bleach f wls False True False c =
           Inr (tp, map (\<lambda>s. fl_sub s c) (raw_signal I lo hi)) \<and>
         plot_bleach f wls False False False (Fin 0) =
           Inr (tp, map (fl_mul (Fin (- 2.28))) (raw_signal I lo hi)) \<and>
         (\<exists>k. argmin (raw_signal I lo hi) = Inr k \<and>
              plot_bleach f wls False False True (Fin 0) =
                Inr (map (\<lambda>t. fl_sub t (tp ! k)) (drop k tp),
                     drop k (map (fl_mul (Fin (- 2.28))) (raw_signal I lo hi))))"
proof -
  have z: "unit_transform False (Fin 0) (raw_signal I lo hi) =
             map (fl_mul (Fin (- 2.28))) (raw_signal I lo hi)"
    by (simp add: unit_transform_def fl_add_zero)
  have 1: "plot_bleach f wls False False False c =
           Inr (tp, map (\<lambda>s. fl_add (fl_mul (Fin (- 2.28)) s) c) (raw_signal I lo hi))"
    using plot_bleach_plain [OF assms, of False c] by (simp add: unit_transform_def)
  have 2: "plot_bleach f wls False True False c =
           Inr (tp, map (\<lambda>s. fl_sub s c) (raw_signal I lo hi))"
    using plot_bleach_plain [OF assms, of True c] by (simp add: unit_transform_def)
  have 3: "plot_bleach f wls False False False (Fin 0) =
           Inr (tp, map (fl_mul (Fin (- 2.28))) (raw_signal I lo hi))"
    using plot_bleach_plain [OF assms, of False "Fin 0"] z by simp
  have 4: "\<exists>k. argmin (raw_signal I lo hi) = Inr k \<and>
              plot_bleach f wls False False True (Fin 0) =
                Inr (map (\<lambda>t. fl_sub t (tp ! k)) (drop k tp),
                     drop k (map (fl_mul (Fin (- 2.28))) (raw_signal I lo hi)))"
    using plot_bleach_from_max [OF assms, of False "Fin 0"] z by auto
  from 1 2 3 4 show ?thesis by blast
qed

theorem plot_bleach_unit_transform_witness:
  "load_TA scenario_file =
     Inr ([Fin 500, Fin 600, Fin 700], [Fin 0, Fin 1, Fin 2],
          [[Fin 1, Fin 2, Fin 3], [Fin 4, Fin 5, Fin 6], [Fin 7, Fin 8, Fin 9]]) \<and>
   resolve [Fin 500, Fin 600, Fin 700] [Fin 500, Fin 700] = Inr [0, 2] \<and>
   plot_bleach scenario_file [Fin 500, Fin 700] False False False (Fin 1) =
     Inr ([Fin 0, Fin 1, Fin 2], [Fin (- 2.42), Fin (- 9.26), Fin (- 16.1)]) \<and>
   plot_bleach scenario_file [Fin 500, Fin 700] False True False (Fin 1) =
     Inr ([Fin 0, Fin 1, Fin 2], [Fin 0.5, Fin 3.5, Fin 6.5]) \<and>
   plot_bleach scenario_file [Fin 500, Fin 700] False False False (Fin 0) =
     Inr ([Fin 0, Fin 1, Fin 2], [Fin (- 3.42), Fin (- 10.26), Fin (- 17.1)])"
proof -
  from plot_bleach_unit_transform [OF scenario_load scenario_resolve, of "Fin 1"]
  have "plot_bleach scenario_file [Fin 500, Fin 700] False False False (Fin 1) =
     Inr ([Fin 0, Fin 1, Fin 2], [Fin (- 2.42), Fin (- 9.26), Fin (- 16.1)]) \<and>
   plot_bleach scenario_file [Fin 500, Fin 700] False True False (Fin 1) =
     Inr ([Fin 0, Fin 1, Fin 2], [Fin 0.5, Fin 3.5, Fin 6.5]) \<and>
   plot_bleach scenario_file [Fin 500, Fin 700] False False False (Fin 0) =
     Inr ([Fin 0, Fin 1, Fin 2], [Fin (- 3.42), Fin (- 10.26), Fin (- 17.1)])"
    by (simp add: scenario_raw fl_sub_def)
  with scenario_load scenario_resolve show ?thesis
    by blast
qed

lemma normalise_signal_total:
  "s \<noteq> [] \<Longrightarrow> \<exists>m. amax s = Inr m \<and> normalise_signal True s = Inr (map (\<lambda>x. fl_div x m) s)"
  using amax_total [of s] by (auto simp: normalise_signal_def)

lemma plot_bleach_total:
  assumes "load_TA f = Inr (wl, tp, I)" and "resolve wl wls = Inr (lo # hi # rest)"
  shows "\<exists>k tp' s. argmin (raw_signal I lo hi) = Inr k \<and> k < length tp \<and>
           truncate from_max k tp (unit_transform mOD c (raw_signal I lo hi)) = Inr (tp', s) \<and>
           tp' = (if from_max then map (\<lambda>t. fl_sub t (tp ! k)) (drop k tp) else tp) \<and>
           s = (if from_max then drop k (unit_transform mOD c (raw_signal I lo hi))
                else unit_transform mOD c (raw_signal I lo hi)) \<and>
           s \<noteq> [] \<and> length s = length tp' \<and>
           plot_bleach f wls False mOD from_max c = Inr (tp', s) \<and>
           (\<exists>m. amax s = Inr m \<and>
                plot_bleach f wls True mOD from_max c = Inr (tp', map (\<lambda>x. fl_div x m) s))"
proof -
  let ?raw = "raw_signal I lo hi"
  let ?u = "unit_transform mOD c ?raw"
  from load_TA_shape [OF assms(1)] have len: "length ?raw = length tp" and ne: "?raw \<noteq> []"
    by (auto simp: raw_signal_def)
  from argmin_bound [OF ne] obtain k where k: "argmin ?raw = Inr k" and kl: "k < length ?raw"
    by blast
  define tp' where "tp' = (if from_max then map (\<lambda>t. fl_sub t (tp ! k)) (drop k tp) else tp)"
  define s where "s = (if from_max then drop k ?u else ?u)"
  have tr: "truncate from_max k tp ?u = Inr (tp', s)"
    using kl len by (simp add: truncate_def tp'_def s_def)
  have sl: "length s = length tp'"
    using len by (simp add: s_def tp'_def unit_transform_length)
  have "k < length ?u"
    using kl by (simp only: unit_transform_length)
  then have sne: "s \<noteq> []"
    by (cases from_max) (auto simp: s_def)
  from normalise_signal_total [OF sne] obtain m where m: "amax s = Inr m"
    and n: "normalise_signal True s = Inr (map (\<lambda>x. fl_div x m) s)"
    by blast
  have p0: "plot_bleach f wls False mOD from_max c = Inr (tp', s)"
    using plot_bleach_run [OF assms k, of False mOD from_max c] tr
    by (simp add: normalise_signal_def)
  have p1: "plot_bleach f wls True mOD from_max c = Inr (tp', map (\<lambda>x. fl_div x m) s)"
    using plot_bleach_run [OF assms k, of True mOD from_max c] tr n
    by simp
  from k kl len tr sne sl p0 p1 m tp'_def s_def show ?thesis
    by auto
qed


lemma bleach_load:
  "load_TA bleach_file =
     Inr ([Fin 500, Fin 600, Fin 700], [Fin 5, Fin 7, Fin 10],
          [[Fin 0, Fin 0, Fin 0], [Fin (- 4), Fin (- 2), Fin 0], [Fin (- 2), Fin 0, Fin 0]])"
  by (simp add: load_TA_def genfromtxt_def bleach_file_def ndim_def)

lemma bleach_raw:
  "raw_signal [[Fin 0, Fin 0, Fin 0], [Fin (- 4), Fin (- 2), Fin 0], [Fin (- 2), Fin 0, Fin 0]] 0 2 =
     [Fin 0, Fin (- 3), Fin (- 1)]"
  by (simp add: raw_signal_def slice_def np_mean_def np_sum_def)

lemma bleach_argmin: "argmin [Fin 0, Fin (- 3), Fin (- 1)] = Inr 1"
  by (simp add: argmin_def)








lemma distances_Fin:
  "map (\<lambda>a. fl_abs (fl_sub a (Fin x))) (map Fin ws) = map (\<lambda>w. Fin \<bar>w - x\<bar>) ws"
  by (simp add: fl_sub_Fin)

lemma genfromtxt_rows:
  "genfromtxt f =
     (if list_all (\<lambda>l. length l = length (hd (filter (\<lambda>l. l \<noteq> []) (drop 2 f))))
           (filter (\<lambda>l. l \<noteq> []) (drop 2 f))
      then Inr (map (map convert) (filter (\<lambda>l. l \<noteq> []) (drop 2 f)))
      else Inl ValueError)"
  by (cases "filter (\<lambda>l. l \<noteq> []) (drop 2 f)")
    (auto simp: genfromtxt_def list_ex_iff list_all_iff)

lemma ndim_two: "(ndim data < 2) = (\<not> (1 < length data \<and> 1 < length (hd data)))"
  by (cases data) (auto simp: ndim_def)

lemma load_TA_succeeds_iff:
  "(\<exists>r. load_TA f = Inr r) =
     (list_all (\<lambda>l. length l = length (hd (filter (\<lambda>l. l \<noteq> []) (drop 2 f))))
        (filter (\<lambda>l. l \<noteq> []) (drop 2 f)) \<and>
      1 < length (filter (\<lambda>l. l \<noteq> []) (drop 2 f)) \<and>
      1 < length (hd (filter (\<lambda>l. l \<noteq> []) (drop 2 f))))"
proof -
  let ?rows = "filter (\<lambda>l. l \<noteq> []) (drop 2 f)"
  have h: "?rows \<noteq> [] \<Longrightarrow> length (hd (map (map convert) ?rows)) = length (hd ?rows)"
    by (cases ?rows) simp_all
  show ?thesis
    unfolding load_TA_def genfromtxt_rows
    by (cases "?rows = []") (auto simp: ndim_two Let_def h hd_map)
qed

lemma row_lengths:
  "map length (filter (\<lambda>l. l \<noteq> []) (drop 2 f)) = filter (\<lambda>n. n \<noteq> 0) (drop 2 (map length f))"
  by (simp add: filter_map o_def drop_map)

lemma load_TA_same_shape:
  assumes "map length f = map length g"
  shows "(\<exists>r. load_TA f = Inr r) = (\<exists>r. load_TA g = Inr r)"
proof -
  let ?rf = "filter (\<lambda>l. l \<noteq> []) (drop 2 f)"
  let ?rg = "filter (\<lambda>l. l \<noteq> []) (drop 2 g)"
  have m: "map length ?rf = map length ?rg"
    unfolding row_lengths assms ..
  then have l: "length ?rf = length ?rg"
    using map_eq_imp_length_eq by blast
  have h: "length (hd ?rf) = length (hd ?rg)"
  proof (cases ?rf)
    case Nil
    with l show ?thesis by simp
  next
    case (Cons a as)
    with l obtain b bs where "?rg = b # bs" by (cases ?rg) auto
    with Cons m show ?thesis by simp
  qed
  have "list_all (\<lambda>l. length l = length (hd ?rf)) ?rf = list_all (\<lambda>n. n = length (hd ?rf)) (map length ?rf)"
    by (simp add: list_all_iff)
  also have "\<dots> = list_all (\<lambda>n. n = length (hd ?rg)) (map length ?rg)"
    unfolding m h ..
  also have "\<dots> = list_all (\<lambda>l. length l = length (hd ?rg)) ?rg"
    by (simp add: list_all_iff)
  finally show ?thesis
    unfolding load_TA_succeeds_iff l h by simp
qed

lemma fl_mul_NaN: "fl_mul x NaN = NaN"
  by (cases x) simp_all

lemma fl_add_NaN: "fl_add NaN c = NaN"
  by simp

lemma fl_sub_NaN: "fl_sub NaN c = NaN"
  by (simp add: fl_sub_def)

lemma unit_transform_NaN:
  "unit_transform mOD c (replicate n NaN) = replicate n NaN"
  by (simp add: unit_transform_def fl_mul_NaN fl_sub_NaN)

lemma amax_NaN: "0 < n \<Longrightarrow> amax (replicate n NaN) = Inr NaN"
proof -
  assume "0 < n"
  then obtain n' where n: "n = Suc n'" by (cases n) auto
  have "is_nan (foldl fl_max2 NaN (replicate n' NaN))"
    by (rule foldl_fl_max2_nan) simp
  then have "foldl fl_max2 NaN (replicate n' NaN) = NaN"
    by (cases "foldl fl_max2 NaN (replicate n' NaN)") simp_all
  with n show ?thesis by (simp add: amax_def)
qed

lemma argmin_NaN: "0 < n \<Longrightarrow> argmin (replicate n NaN) = Inr 0"
  by (cases n) (simp_all add: argmin_def)

lemma raw_signal_empty_window:
  "hi \<le> lo \<Longrightarrow> raw_signal I lo hi = replicate (length I) NaN"
  by (simp add: raw_signal_def slice_empty np_mean_Nil map_replicate_const)

text \<open>
  C10 (as stated). When the resolved indices satisfy \<open>lo \<ge> hi\<close> the signal would be
  empty and the call would fail at the argmin. On the grid of the scenario with
  \<open>wls = [700, 500]\<close> the indices are 2 and 0, and the call returns: the signal has one
  NaN for each of the three time rows.
\<close>

theorem descending_window_counterexample:
  "load_TA scenario_file =
     Inr ([Fin 500, Fin 600, Fin 700], [Fin 0, Fin 1, Fin 2],
          [[Fin 1, Fin 2, Fin 3], [Fin 4, Fin 5, Fin 6], [Fin 7, Fin 8, Fin 9]]) \<and>
   resolve [Fin 500, Fin 600, Fin 700] [Fin 700, Fin 500] = Inr [2, 0] \<and>
   raw_signal [[Fin 1, Fin 2, Fin 3], [Fin 4, Fin 5, Fin 6], [Fin 7, Fin 8, Fin 9]] 2 0 =
     [NaN, NaN, NaN] \<and>
   argmin [NaN, NaN, NaN] = Inr 0 \<and>
   plot_bleach scenario_file [Fin 700, Fin 500] False False True (Fin 0) =
     Inr ([Fin 0, Fin 1, Fin 2], [NaN, NaN, NaN])"
proof -
  have r: "resolve [Fin 500, Fin 600, Fin 700] [Fin 700, Fin 500] = Inr [2, 0]"
    by (simp add: nearest_index_def argmin_def fl_sub_def)
  have s: "raw_signal [[Fin 1, Fin 2, Fin 3], [Fin 4, Fin 5, Fin 6], [Fin 7, Fin 8, Fin 9]] 2 0 =
     [NaN, NaN, NaN]"
    by (simp add: raw_signal_def slice_def np_mean_Nil)
  have k: "argmin [NaN, NaN, NaN] = Inr 0"
    by (simp add: argmin_def)
  have "plot_bleach scenario_file [Fin 700, Fin 500] False False True (Fin 0) =
     Inr ([Fin 0, Fin 1, Fin 2], [NaN, NaN, NaN])"
    using plot_bleach_run [OF scenario_load r, of 0 False False True "Fin 0"] k
    by (simp add: s truncate_def unit_transform_def normalise_signal_def fl_sub_def)
  with scenario_load r s k show ?thesis by blast
qed

text \<open>
  C10 (amended). \<open>plot_bleach\<close> never swaps or sorts the resolved indices: when they
  satisfy \<open>lo \<ge> hi\<close> the column slice is empty and the mean of every time row is NaN.
  The signal has one NaN per time row, its argmin is the index 0, and the call returns
  the timepoints (shifted by the first one when \<open>from_max\<close> is true) with a signal of
  NaNs, whatever the other arguments are.
\<close>

theorem plot_bleach_descending_window:
  assumes "load_TA f = Inr (wl, tp, I)" and "resolve wl wls = Inr (lo # hi # rest)"
    and "hi \<le> lo"
  shows "(\<forall>row\<in>set I. slice lo hi row = []) \<and>
         raw_signal I lo hi = replicate (length tp) NaN \<and> 0 < length tp \<and>
         argmin (raw_signal I lo hi) = Inr 0 \<and>
         plot_bleach f wls normalise mOD from_max c =
           Inr (if from_max then map (\<lambda>t. fl_sub t (tp ! 0)) tp else tp,
                replicate (length tp) NaN)"
proof -
  from load_TA_shape [OF assms(1)] have len: "length I = length tp" and pos: "0 < length tp"
    by simp_all
  have raw: "raw_signal I lo hi = replicate (length tp) NaN"
    using raw_signal_empty_window [OF assms(3), of I] len by simp
  have k: "argmin (raw_signal I lo hi) = Inr 0"
    unfolding raw using pos by (rule argmin_NaN)
  have tr: "truncate from_max 0 tp (replicate (length tp) NaN) =
              Inr (if from_max then map (\<lambda>t. fl_sub t (tp ! 0)) tp else tp,
                   replicate (length tp) NaN)"
    using pos by (simp add: truncate_def)
  have nm: "normalise_signal normalise (replicate (length tp) NaN) =
              Inr (replicate (length tp) NaN)"
    using amax_NaN [OF pos] by (simp add: normalise_signal_def)
  have "plot_bleach f wls normalise mOD from_max c =
           Inr (if from_max then map (\<lambda>t. fl_sub t (tp ! 0)) tp else tp,
                replicate (length tp) NaN)"
    using plot_bleach_run [OF assms(1,2) k, of normalise mOD from_max c]
    by (simp only: raw unit_transform_NaN tr nm sum.case prod.case)
  with raw pos k assms(3) show ?thesis
    by (simp add: slice_empty)
qed

theorem plot_bleach_descending_window_witness:
  "load_TA scenario_file =
     Inr ([Fin 500, Fin 600, Fin 700], [Fin 0, Fin 1, Fin 2],
          [[Fin 1, Fin 2, Fin 3], [Fin 4, Fin 5, Fin 6], [Fin 7, Fin 8, Fin 9]]) \<and>
   resolve [Fin 500, Fin 600, Fin 700] [Fin 700, Fin 500] = Inr [2, 0] \<and>
   (0::nat) \<le> 2 \<and>
   plot_bleach scenario_file [Fin 700, Fin 500] True False True (Fin 0) =
     Inr ([Fin 0, Fin 1, Fin 2], [NaN, NaN, NaN])"
proof -
  have r: "resolve [Fin 500, Fin 600, Fin 700] [Fin 700, Fin 500] = Inr [2, 0]"
    by (simp add: nearest_index_def argmin_def fl_sub_def)
  have h: "(0::nat) \<le> 2"
    by simp
  from plot_bleach_descending_window [OF scenario_load r h, of True False True "Fin 0"]
  have "plot_bleach scenario_file [Fin 700, Fin 500] True False True (Fin 0) =
     Inr ([Fin 0, Fin 1, Fin 2], [NaN, NaN, NaN])"
    by (simp add: fl_sub_def numeral_3_eq_3)
  with scenario_load r h show ?thesis by blast
qed

lemma cps_lits:
  "cps ''Pump='' = [80, 117, 109, 112, 61]" "cps ''.'' = [46]" "cps ''e'' = [101]"
  "cps ''+'' = [43]" "cps ''-'' = [45]"
  by (simp_all add: cps_def)

lemma table_ascii:
  "decimal_table dv \<Longrightarrow> c < 128 \<Longrightarrow> is_digit dv c = (48 \<le> c \<and> c \<le> 57)"
  by (simp add: decimal_table_def is_digit_def)

lemma table_ascii_val:
  "decimal_table dv \<Longrightarrow> 48 \<le> c \<Longrightarrow> c \<le> 57 \<Longrightarrow> digit_val dv c = c - 48"
  by (simp add: decimal_table_def digit_val_def)

lemma not_digit:
  assumes "decimal_table dv"
  shows "\<not> is_digit dv 46" "\<not> is_digit dv 101" "\<not> is_digit dv 43" "\<not> is_digit dv 45"
  using assms by (simp_all add: table_ascii)

lemma two_scripts_table: "decimal_table two_scripts"
  by (auto simp: decimal_table_def two_scripts_def)

lemma pump_loop_filter:
  "pump_loop dv lns acc =
     acc @ map (\<lambda>l. float_of_group dv (the (re_search dv l)))
             (filter (\<lambda>l. re_search dv l \<noteq> None) lns)"
  by (induction lns arbitrary: acc) (auto split: option.splits)

lemma list_all_takeWhile: "list_all P (takeWhile P xs)"
  by (induction xs) simp_all

lemma takeWhile_dropWhile_Nil: "takeWhile P (dropWhile P xs) = []"
  by (induction xs) simp_all

lemma take1_eq: "take 1 xs = [c] \<Longrightarrow> xs = [c] @ drop 1 xs"
  by (cases xs) simp_all

lemma match_here_SomeD:
  assumes "match_here dv s = Some (d1, d2, neg, d3)"
  shows "\<exists>sg post. s = cps ''Pump='' @ d1 @ cps ''.'' @ d2 @ cps ''e'' @ sg @ d3 @ post \<and>
           digit_run dv d1 \<and> digit_run dv d2 \<and>
           (sg = [] \<or> sg = cps ''+'' \<or> sg = cps ''-'') \<and> neg = (sg = cps ''-'') \<and>
           digit_run dv d3 \<and> takeWhile (is_digit dv) post = []"
proof -
  define r where "r = drop 5 s"
  define r1 where "r1 = dropWhile (is_digit dv) r"
  define r2 where "r2 = drop 1 r1"
  define r3 where "r3 = dropWhile (is_digit dv) r2"
  define r4 where "r4 = drop 1 r3"
  define sg where "sg = (if take 1 r4 = cps ''-'' \<or> take 1 r4 = cps ''+'' then take 1 r4 else [])"
  define r5 where "r5 = (if take 1 r4 = cps ''-'' \<or> take 1 r4 = cps ''+'' then drop 1 r4 else r4)"
  have eq: "match_here dv s =
      (if take 5 s \<noteq> cps ''Pump='' then None
       else if takeWhile (is_digit dv) r = [] \<or> take 1 r1 \<noteq> cps ''.'' then None
       else if takeWhile (is_digit dv) r2 = [] \<or> take 1 r3 \<noteq> cps ''e'' then None
       else if takeWhile (is_digit dv) r5 = [] then None
       else Some (takeWhile (is_digit dv) r, takeWhile (is_digit dv) r2,
                  take 1 r4 = cps ''-'', takeWhile (is_digit dv) r5))"
    by (simp only: match_here_def Let_def r_def r1_def r2_def r3_def r4_def r5_def)
  from assms have p: "take 5 s = cps ''Pump=''"
    unfolding eq by (simp split: if_splits)
  then have s: "s = cps ''Pump='' @ r"
    unfolding r_def by (metis append_take_drop_id)
  from assms have a: "takeWhile (is_digit dv) r \<noteq> []" "take 1 r1 = cps ''.''"
    "takeWhile (is_digit dv) r2 \<noteq> []" "take 1 r3 = cps ''e''"
    "takeWhile (is_digit dv) r5 \<noteq> []"
    and g: "d1 = takeWhile (is_digit dv) r" "d2 = takeWhile (is_digit dv) r2"
      "neg = (take 1 r4 = cps ''-'')" "d3 = takeWhile (is_digit dv) r5"
    unfolding eq by (auto split: if_splits)
  have r: "r = d1 @ r1"
    unfolding g r1_def by simp
  have r1: "r1 = cps ''.'' @ r2"
    using a(2) unfolding r2_def cps_lits by (rule take1_eq)
  have r2: "r2 = d2 @ r3"
    unfolding g r3_def by simp
  have r3: "r3 = cps ''e'' @ r4"
    using a(4) unfolding r4_def cps_lits by (rule take1_eq)
  have r4: "r4 = sg @ r5"
    by (simp add: sg_def r5_def)
  have r5: "r5 = d3 @ dropWhile (is_digit dv) r5"
    unfolding g by simp
  have sgc: "sg = [] \<or> sg = cps ''+'' \<or> sg = cps ''-''"
    by (auto simp: sg_def)
  have ng: "neg = (sg = cps ''-'')"
    unfolding g by (auto simp: sg_def cps_lits)
  have "s = cps ''Pump='' @ d1 @ cps ''.'' @ d2 @ cps ''e'' @ sg @ d3 @ dropWhile (is_digit dv) r5"
    using s r r1 r2 r3 r4 r5 by simp
  moreover have "digit_run dv d1" "digit_run dv d2" "digit_run dv d3"
    using a(1,3,5) unfolding g digit_run_def by (simp_all add: list_all_takeWhile)
  moreover have "takeWhile (is_digit dv) (dropWhile (is_digit dv) r5) = []"
    by (rule takeWhile_dropWhile_Nil)
  ultimately show ?thesis
    using sgc ng by blast
qed

lemma takeWhile_run:
  "list_all P ds \<Longrightarrow> \<not> P c \<Longrightarrow> takeWhile P (ds @ [c] @ rest) = ds"
  by (simp add: list_all_iff takeWhile_append2)

lemma dropWhile_run:
  "list_all P ds \<Longrightarrow> \<not> P c \<Longrightarrow> dropWhile P (ds @ [c] @ rest) = [c] @ rest"
  by (simp add: list_all_iff dropWhile_append2)

lemma takeWhile_run_more:
  "list_all P ds \<Longrightarrow> takeWhile P (ds @ rest) = ds @ takeWhile P rest"
  by (simp add: list_all_iff takeWhile_append2)

lemma match_here_token:
  assumes "decimal_table dv"
    and "digit_run dv d1" and "digit_run dv d2"
    and "sg = [] \<or> sg = cps ''+'' \<or> sg = cps ''-''" and "digit_run dv d3"
  shows "match_here dv (cps ''Pump='' @ d1 @ cps ''.'' @ d2 @ cps ''e'' @ sg @ d3 @ post) =
           Some (d1, d2, sg = cps ''-'', d3 @ takeWhile (is_digit dv) post)"
proof -
  define s where "s = cps ''Pump='' @ d1 @ cps ''.'' @ d2 @ cps ''e'' @ sg @ d3 @ post"
  define r where "r = drop 5 s"
  define r1 where "r1 = dropWhile (is_digit dv) r"
  define r2 where "r2 = drop 1 r1"
  define r3 where "r3 = dropWhile (is_digit dv) r2"
  define r4 where "r4 = drop 1 r3"
  define r5 where "r5 = (if take 1 r4 = cps ''-'' \<or> take 1 r4 = cps ''+'' then drop 1 r4 else r4)"
  have eq: "match_here dv s =
      (if take 5 s \<noteq> cps ''Pump='' then None
       else if takeWhile (is_digit dv) r = [] \<or> take 1 r1 \<noteq> cps ''.'' then None
       else if takeWhile (is_digit dv) r2 = [] \<or> take 1 r3 \<noteq> cps ''e'' then None
       else if takeWhile (is_digit dv) r5 = [] then None
       else Some (takeWhile (is_digit dv) r, takeWhile (is_digit dv) r2,
                  take 1 r4 = cps ''-'', takeWhile (is_digit dv) r5))"
    by (simp only: match_here_def Let_def r_def r1_def r2_def r3_def r4_def r5_def)
  note nd = not_digit [OF assms(1)]
  from assms(2,3,5) have ne: "d1 \<noteq> []" "d2 \<noteq> []" "d3 \<noteq> []"
    and al: "list_all (is_digit dv) d1" "list_all (is_digit dv) d2" "list_all (is_digit dv) d3"
    by (simp_all add: digit_run_def)
  obtain c cs where d3: "d3 = c # cs" and c: "is_digit dv c"
    using ne(3) al(3) by (cases d3) auto
  have cne: "c \<noteq> 45" "c \<noteq> 43"
    using c nd by auto
  have t5: "take 5 s = cps ''Pump=''"
    by (simp add: s_def cps_lits)
  have r: "r = d1 @ [46] @ (d2 @ cps ''e'' @ sg @ d3 @ post)"
    by (simp add: r_def s_def cps_lits)
  have d1t: "takeWhile (is_digit dv) r = d1"
    unfolding r using al(1) nd(1) by (rule takeWhile_run)
  have r1: "r1 = [46] @ (d2 @ cps ''e'' @ sg @ d3 @ post)"
    unfolding r1_def r using al(1) nd(1) by (rule dropWhile_run)
  have r2: "r2 = d2 @ [101] @ (sg @ d3 @ post)"
    by (simp add: r2_def r1 cps_lits)
  have d2t: "takeWhile (is_digit dv) r2 = d2"
    unfolding r2 using al(2) nd(2) by (rule takeWhile_run)
  have r3: "r3 = [101] @ (sg @ d3 @ post)"
    unfolding r3_def r2 using al(2) nd(2) by (rule dropWhile_run)
  have r4: "r4 = sg @ d3 @ post"
    by (simp add: r4_def r3)
  have neg: "(take 1 r4 = cps ''-'') = (sg = cps ''-'')"
    using assms(4) cne unfolding r4 d3 cps_lits by auto
  have r5: "r5 = d3 @ post"
    using assms(4) cne unfolding r5_def r4 d3 cps_lits by auto
  have d3t: "takeWhile (is_digit dv) r5 = d3 @ takeWhile (is_digit dv) post"
    unfolding r5 using al(3) by (rule takeWhile_run_more)
  have e1: "\<not> take 5 s \<noteq> cps ''Pump=''"
    using t5 by simp
  have e2: "\<not> (takeWhile (is_digit dv) r = [] \<or> take 1 r1 \<noteq> cps ''.'')"
    unfolding d1t r1 cps_lits using ne(1) by simp
  have e3: "\<not> (takeWhile (is_digit dv) r2 = [] \<or> take 1 r3 \<noteq> cps ''e'')"
    unfolding d2t r3 cps_lits using ne(2) by simp
  have e4: "\<not> takeWhile (is_digit dv) r5 = []"
    unfolding d3t using ne(3) by simp
  have "match_here dv s = Some (d1, d2, sg = cps ''-'', d3 @ takeWhile (is_digit dv) post)"
  proof -
    have f2: "\<not> (d1 = [] \<or> take 1 r1 \<noteq> cps ''.'')"
      using e2 unfolding d1t .
    have f3: "\<not> (d2 = [] \<or> take 1 r3 \<noteq> cps ''e'')"
      using e3 unfolding d2t .
    have f4: "\<not> d3 @ takeWhile (is_digit dv) post = []"
      using e4 unfolding d3t .
    show ?thesis
      by (simp only: eq e1 f2 f3 f4 if_False d1t d2t d3t neg)
  qed
  then show ?thesis
    by (simp only: s_def)
qed

lemma match_here_iff:
  assumes "decimal_table dv"
  shows "(match_here dv s \<noteq> None) = starts_pump dv s"
proof
  assume "match_here dv s \<noteq> None"
  then obtain d1 d2 neg d3 where "match_here dv s = Some (d1, d2, neg, d3)"
    by (cases "match_here dv s") auto
  from match_here_SomeD [OF this] obtain sg post
    where "s = cps ''Pump='' @ d1 @ cps ''.'' @ d2 @ cps ''e'' @ sg @ d3 @ post"
      and "digit_run dv d1" "digit_run dv d2" "sg = [] \<or> sg = cps ''+'' \<or> sg = cps ''-''"
      "digit_run dv d3"
    by blast
  then have "s = cps ''Pump='' @ (d1 @ cps ''.'' @ d2 @ cps ''e'' @ sg @ d3) @ post \<and>
             pump_token dv (d1 @ cps ''.'' @ d2 @ cps ''e'' @ sg @ d3)"
    unfolding pump_token_def by auto
  then show "starts_pump dv s"
    unfolding starts_pump_def by blast
next
  assume "starts_pump dv s"
  then obtain t post where s: "s = cps ''Pump='' @ t @ post" and "pump_token dv t"
    unfolding starts_pump_def by blast
  then obtain d1 d2 sg d3 where t: "t = d1 @ cps ''.'' @ d2 @ cps ''e'' @ sg @ d3"
    and v: "digit_run dv d1" "digit_run dv d2" "sg = [] \<or> sg = cps ''+'' \<or> sg = cps ''-''"
      "digit_run dv d3"
    unfolding pump_token_def by blast
  from match_here_token [OF assms v, of post] show "match_here dv s \<noteq> None"
    unfolding s t by simp
qed

lemma match_here_Nil: "match_here dv [] = None"
  by (simp add: match_here_def cps_lits)

lemma re_search_leftmost:
  "re_search dv l = Some g \<Longrightarrow>
     \<exists>pre s. l = pre @ s \<and> match_here dv s = Some g \<and>
       (\<forall>pre' s'. l = pre' @ s' \<and> length pre' < length pre \<longrightarrow> match_here dv s' = None)"
proof (induction l)
  case Nil
  then show ?case by simp
next
  case (Cons c cs)
  show ?case
  proof (cases "match_here dv (c # cs)")
    case None
    with Cons.prems have "re_search dv cs = Some g" by simp
    from Cons.IH [OF this] obtain pre s where l: "cs = pre @ s" and m: "match_here dv s = Some g"
      and f: "\<forall>pre' s'. cs = pre' @ s' \<and> length pre' < length pre \<longrightarrow> match_here dv s' = None"
      by blast
    have "\<forall>pre' s'. c # cs = pre' @ s' \<and> length pre' < length (c # pre) \<longrightarrow>
            match_here dv s' = None"
    proof (intro allI impI)
      fix pre' s' assume h: "c # cs = pre' @ s' \<and> length pre' < length (c # pre)"
      show "match_here dv s' = None"
      proof (cases pre')
        case Nil
        with h None show ?thesis by simp
      next
        case (Cons a as)
        with h have "cs = as @ s' \<and> length as < length pre" by simp
        with f show ?thesis by blast
      qed
    qed
    with l m have "c # cs = (c # pre) @ s \<and> match_here dv s = Some g \<and>
        (\<forall>pre' s'. c # cs = pre' @ s' \<and> length pre' < length (c # pre) \<longrightarrow>
            match_here dv s' = None)"
      by simp
    then show ?thesis by blast
  next
    case (Some h)
    with Cons.prems have "match_here dv (c # cs) = Some g" by simp
    then have "c # cs = [] @ (c # cs) \<and> match_here dv (c # cs) = Some g \<and>
        (\<forall>pre' s'. c # cs = pre' @ s' \<and> length pre' < length ([] :: nat list) \<longrightarrow>
            match_here dv s' = None)"
      by simp
    then show ?thesis by blast
  qed
qed

lemma re_search_here: "match_here dv s = Some g \<Longrightarrow> re_search dv s = Some g"
  by (cases s) (simp_all add: match_here_Nil)

lemma re_search_append: "re_search dv s \<noteq> None \<Longrightarrow> re_search dv (pre @ s) \<noteq> None"
  by (induction pre) (auto split: option.splits)

lemma re_search_iff:
  assumes "decimal_table dv"
  shows "(re_search dv l \<noteq> None) = contains_pump dv l"
proof
  assume "re_search dv l \<noteq> None"
  then obtain g where "re_search dv l = Some g" by auto
  from re_search_leftmost [OF this] obtain pre s where "l = pre @ s" "match_here dv s = Some g"
    by blast
  then have "l = pre @ s \<and> starts_pump dv s"
    using match_here_iff [OF assms, of s] by simp
  then show "contains_pump dv l"
    unfolding contains_pump_def by blast
next
  assume "contains_pump dv l"
  then obtain pre s where l: "l = pre @ s" and "starts_pump dv s"
    unfolding contains_pump_def by blast
  then have "match_here dv s \<noteq> None"
    using match_here_iff [OF assms, of s] by simp
  then have "re_search dv s \<noteq> None"
    using re_search_here by fastforce
  then show "re_search dv l \<noteq> None"
    unfolding l by (rule re_search_append)
qed

lemma foldl_horner:
  fixes f :: "'a \<Rightarrow> nat" and a0 :: nat
  shows "foldl (\<lambda>a c. 10 * a + f c) a0 ds =
     a0 * 10 ^ length ds + (\<Sum>i<length ds. f (ds ! i) * 10 ^ (length ds - Suc i))"
proof (induction ds arbitrary: a0)
  case Nil
  then show ?case by simp
next
  case (Cons d ds)
  have "(\<Sum>i<Suc (length ds). f ((d # ds) ! i) * 10 ^ (Suc (length ds) - Suc i)) =
        f d * 10 ^ length ds + (\<Sum>i<length ds. f (ds ! i) * 10 ^ (length ds - Suc i))"
    by (simp add: sum.lessThan_Suc_shift del: sum.lessThan_Suc)
  with Cons.IH [of "10 * a0 + f d"] show ?case
    by (simp add: algebra_simps)
qed

lemma digits_val_positional: "digits_val dv ds = positional dv ds"
  by (simp add: digits_val_def positional_def foldl_horner)

lemma digits_val_append:
  "digits_val dv (d1 @ d2) = digits_val dv d1 * 10 ^ length d2 + digits_val dv d2"
proof -
  have "digits_val dv (d1 @ d2) =
          foldl (\<lambda>a c. 10 * a + digit_val dv c) (digits_val dv d1) d2"
    by (simp add: digits_val_def)
  also have "\<dots> = digits_val dv d1 * 10 ^ length d2 + positional dv d2"
    unfolding positional_def by (rule foldl_horner)
  finally show ?thesis
    by (simp add: digits_val_positional)
qed

lemma percentage_deviation_Fin:
  assumes "sum_list qs \<noteq> 0" and "i < length qs"
  shows "percentage_deviation (map Fin qs) ! i =
           Fin ((sum_list qs / of_nat (length qs) - qs ! i) / (sum_list qs / of_nat (length qs)) * 100)"
proof -
  from assms(2) have ne: "qs \<noteq> []" by auto
  then have nz: "sum_list qs / of_nat (length qs) \<noteq> 0"
    using assms(1) by simp
  show ?thesis
    using assms(2) nz
    by (simp add: percentage_deviation_def np_mean_Fin [OF ne] fl_sub_Fin del: of_nat_eq_0_iff)
qed

lemma float_of_group_positional:
  "float_of_group dv (d1, d2, neg, d3) =
     (let q = (of_nat (positional dv d1) + of_nat (positional dv d2) / 10 ^ length d2)
                * (if neg then 1 / 10 ^ positional dv d3 else 10 ^ positional dv d3)
      in if 2 ^ 1024 - 2 ^ 970 \<le> q then PInf else if q \<le> 1 / 2 ^ 1075 then Fin 0 else Fin q)"
proof -
  have "(of_nat (digits_val dv (d1 @ d2)) :: rat) / 10 ^ length d2 =
          of_nat (positional dv d1) + of_nat (positional dv d2) / 10 ^ length d2"
    unfolding digits_val_append by (simp add: digits_val_positional add_divide_distrib)
  then show ?thesis
    by (simp add: py_float_def Let_def digits_val_positional)
qed

lemma py_float_range: "1 / 2 ^ 1075 < q \<Longrightarrow> q < 2 ^ 1024 - 2 ^ 970 \<Longrightarrow> py_float q = Fin q"
  by (simp add: py_float_def)

lemma ascii_examples:
  assumes "decimal_table dv"
  shows "pump_loop dv scenario_log [] = [Fin 1, Fin 2]"
    and "pump_loop dv (map cps [''xxPump=12.50e-3 Pump=1.0e1'', ''Pump=1.e5'', ''Pump=3.25e+2x'',
            ''Pump=1.0e400'', ''Pump=1.0e-400'']) [] = [Fin (1 / 80), Fin 325, PInf, Fin 0]"
  by (simp_all add: scenario_log_def cps_def match_here_def Let_def digits_val_def
      table_ascii [OF assms] table_ascii_val [OF assms] py_float_def)

text \<open>
  C9. \<open>extract_pump_values\<close> collects, in the order of the file, one number for every
  line that holds a match of \<open>Pump=(\d+\.\d+e[+-]?\d+)\<close> and passes over the other lines.
  The match is the leftmost one, with the longest run of exponent digits, and its number
  is the decimal number the group denotes: the digits before the point, the digits
  after it as a fraction, times ten to the signed exponent; beyond the range of a double
  it is the infinity, below it zero. The deviation of a sample is
  \<open>(mean - value) / mean * 100\<close>. For the log with the lines \<open>Pump=1.0e+00\<close>,
  \<open>Pump=2.0e+00\<close> and \<open>noise\<close> the values are 1 and 2, the mean is 1.5 and the
  deviations are 100/3 and -100/3.
\<close>

theorem extract_pump_values_collects:
  assumes "decimal_table dv"
  shows "fst (extract_pump_values dv lns) =
           map (\<lambda>l. float_of_group dv (the (re_search dv l))) (filter (contains_pump dv) lns) \<and>
         (\<forall>l d1 d2 neg d3. re_search dv l = Some (d1, d2, neg, d3) \<longrightarrow>
            (\<exists>pre sg post.
               l = pre @ cps ''Pump='' @ d1 @ cps ''.'' @ d2 @ cps ''e'' @ sg @ d3 @ post \<and>
               digit_run dv d1 \<and> digit_run dv d2 \<and>
               (sg = [] \<or> sg = cps ''+'' \<or> sg = cps ''-'') \<and> neg = (sg = cps ''-'') \<and>
               digit_run dv d3 \<and> takeWhile (is_digit dv) post = [] \<and>
               (\<forall>pre' s'. l = pre' @ s' \<and> length pre' < length pre \<longrightarrow> \<not> starts_pump dv s')) \<and>
            float_of_group dv (d1, d2, neg, d3) =
              (let q = (of_nat (positional dv d1) + of_nat (positional dv d2) / 10 ^ length d2)
                         * (if neg then 1 / 10 ^ positional dv d3 else 10 ^ positional dv d3)
               in if 2 ^ 1024 - 2 ^ 970 \<le> q then PInf
                  else if q \<le> 1 / 2 ^ 1075 then Fin 0 else Fin q)) \<and>
         snd (extract_pump_values dv lns) =
           map (\<lambda>v. fl_mul (fl_div (fl_sub (np_mean (fst (extract_pump_values dv lns))) v)
                               (np_mean (fst (extract_pump_values dv lns)))) (Fin 100))
             (fst (extract_pump_values dv lns)) \<and>
         (\<forall>qs. fst (extract_pump_values dv lns) = map Fin qs \<longrightarrow> sum_list qs \<noteq> 0 \<longrightarrow>
            (\<forall>i<length qs. snd (extract_pump_values dv lns) ! i =
               Fin ((sum_list qs / of_nat (length qs) - qs ! i) / (sum_list qs / of_nat (length qs))
                    * 100))) \<and>
         extract_pump_values dv scenario_log =
           ([Fin 1, Fin 2], [Fin (100 / 3), Fin (- (100 / 3))]) \<and>
         np_mean [Fin 1, Fin 2] = Fin 1.5 \<and>
         fst (extract_pump_values dv
                (map cps [''xxPump=12.50e-3 Pump=1.0e1'', ''Pump=1.e5'', ''Pump=3.25e+2x'',
                          ''Pump=1.0e400'', ''Pump=1.0e-400''])) =
           [Fin (1 / 80), Fin 325, PInf, Fin 0]"
proof -
  have 1: "fst (extract_pump_values dv lns) =
           map (\<lambda>l. float_of_group dv (the (re_search dv l))) (filter (contains_pump dv) lns)"
    by (simp only: extract_pump_values_def Let_def pump_loop_filter re_search_iff [OF assms]
        fst_conv append_Nil)
  have 2: "\<forall>l d1 d2 neg d3. re_search dv l = Some (d1, d2, neg, d3) \<longrightarrow>
            (\<exists>pre sg post.
               l = pre @ cps ''Pump='' @ d1 @ cps ''.'' @ d2 @ cps ''e'' @ sg @ d3 @ post \<and>
               digit_run dv d1 \<and> digit_run dv d2 \<and>
               (sg = [] \<or> sg = cps ''+'' \<or> sg = cps ''-'') \<and> neg = (sg = cps ''-'') \<and>
               digit_run dv d3 \<and> takeWhile (is_digit dv) post = [] \<and>
               (\<forall>pre' s'. l = pre' @ s' \<and> length pre' < length pre \<longrightarrow> \<not> starts_pump dv s')) \<and>
            float_of_group dv (d1, d2, neg, d3) =
              (let q = (of_nat (positional dv d1) + of_nat (positional dv d2) / 10 ^ length d2)
                         * (if neg then 1 / 10 ^ positional dv d3 else 10 ^ positional dv d3)
               in if 2 ^ 1024 - 2 ^ 970 \<le> q then PInf
                  else if q \<le> 1 / 2 ^ 1075 then Fin 0 else Fin q)"
  proof (intro allI impI conjI)
    fix l d1 d2 neg d3
    assume r: "re_search dv l = Some (d1, d2, neg, d3)"
    from re_search_leftmost [OF r] obtain pre s where l: "l = pre @ s"
      and m: "match_here dv s = Some (d1, d2, neg, d3)"
      and f: "\<forall>pre' s'. l = pre' @ s' \<and> length pre' < length pre \<longrightarrow> match_here dv s' = None"
      by blast
    from match_here_SomeD [OF m] obtain sg post
      where s: "s = cps ''Pump='' @ d1 @ cps ''.'' @ d2 @ cps ''e'' @ sg @ d3 @ post"
        and v: "digit_run dv d1" "digit_run dv d2" "sg = [] \<or> sg = cps ''+'' \<or> sg = cps ''-''"
          "neg = (sg = cps ''-'')" "digit_run dv d3" "takeWhile (is_digit dv) post = []"
      by blast
    have f': "\<forall>pre' s'. l = pre' @ s' \<and> length pre' < length pre \<longrightarrow> \<not> starts_pump dv s'"
      using f match_here_iff [OF assms] by blast
    from l s v f'
    show "\<exists>pre sg post.
               l = pre @ cps ''Pump='' @ d1 @ cps ''.'' @ d2 @ cps ''e'' @ sg @ d3 @ post \<and>
               digit_run dv d1 \<and> digit_run dv d2 \<and>
               (sg = [] \<or> sg = cps ''+'' \<or> sg = cps ''-'') \<and> neg = (sg = cps ''-'') \<and>
               digit_run dv d3 \<and> takeWhile (is_digit dv) post = [] \<and>
               (\<forall>pre' s'. l = pre' @ s' \<and> length pre' < length pre \<longrightarrow> \<not> starts_pump dv s')"
      by blast
    show "float_of_group dv (d1, d2, neg, d3) =
              (let q = (of_nat (positional dv d1) + of_nat (positional dv d2) / 10 ^ length d2)
                         * (if neg then 1 / 10 ^ positional dv d3 else 10 ^ positional dv d3)
               in if 2 ^ 1024 - 2 ^ 970 \<le> q then PInf
                  else if q \<le> 1 / 2 ^ 1075 then Fin 0 else Fin q)"
      by (rule float_of_group_positional)
  qed
  have 3: "snd (extract_pump_values dv lns) =
           map (\<lambda>v. fl_mul (fl_div (fl_sub (np_mean (fst (extract_pump_values dv lns))) v)
                               (np_mean (fst (extract_pump_values dv lns)))) (Fin 100))
             (fst (extract_pump_values dv lns))"
    by (simp add: extract_pump_values_def Let_def percentage_deviation_def)
  have 4: "\<forall>qs. fst (extract_pump_values dv lns) = map Fin qs \<longrightarrow> sum_list qs \<noteq> 0 \<longrightarrow>
            (\<forall>i<length qs. snd (extract_pump_values dv lns) ! i =
               Fin ((sum_list qs / of_nat (length qs) - qs ! i) / (sum_list qs / of_nat (length qs))
                    * 100))"
  proof (intro allI impI)
    fix qs i
    assume a: "fst (extract_pump_values dv lns) = map Fin qs" and b: "sum_list qs \<noteq> 0"
      and c: "i < length qs"
    from a have "snd (extract_pump_values dv lns) = percentage_deviation (map Fin qs)"
      by (simp add: extract_pump_values_def Let_def)
    then show "snd (extract_pump_values dv lns) ! i =
               Fin ((sum_list qs / of_nat (length qs) - qs ! i) / (sum_list qs / of_nat (length qs))
                    * 100)"
      using percentage_deviation_Fin [OF b c] by simp
  qed
  have m: "np_mean [Fin 1, Fin 2] = Fin 1.5"
    by (simp add: np_mean_def np_sum_def)
  have 5: "extract_pump_values dv scenario_log =
           ([Fin 1, Fin 2], [Fin (100 / 3), Fin (- (100 / 3))])"
    by (simp add: extract_pump_values_def Let_def ascii_examples(1) [OF assms]
        percentage_deviation_def m fl_sub_def)
  have 6: "fst (extract_pump_values dv
                (map cps [''xxPump=12.50e-3 Pump=1.0e1'', ''Pump=1.e5'', ''Pump=3.25e+2x'',
                          ''Pump=1.0e400'', ''Pump=1.0e-400''])) =
           [Fin (1 / 80), Fin 325, PInf, Fin 0]"
    by (simp only: extract_pump_values_def Let_def ascii_examples(2) [OF assms] fst_conv)
  from 1 2 3 4 5 m 6 show ?thesis
    by (intro conjI)
qed

theorem extract_pump_values_collects_witness:
  "decimal_table two_scripts \<and>
   extract_pump_values two_scripts scenario_log =
     ([Fin 1, Fin 2], [Fin (100 / 3), Fin (- (100 / 3))]) \<and>
   fst (extract_pump_values two_scripts
          (map cps [''xxPump=12.50e-3 Pump=1.0e1'', ''Pump=1.e5'', ''Pump=3.25e+2x'',
                    ''Pump=1.0e400'', ''Pump=1.0e-400''])) =
     [Fin (1 / 80), Fin 325, PInf, Fin 0] \<and>
   re_search two_scripts (cps ''Pump='' @ [1633, 1634] @ cps ''.'' @ [1637] @ cps ''e'' @ [1633]) =
     Some ([1633, 1634], [1637], False, [1633]) \<and>
   float_of_group two_scripts ([1633, 1634], [1637], False, [1633]) = Fin 125"
proof -
  note th = extract_pump_values_collects [OF two_scripts_table, of scenario_log]
  have r: "re_search two_scripts (cps ''Pump='' @ [1633, 1634] @ cps ''.'' @ [1637] @ cps ''e'' @ [1633]) =
     Some ([1633, 1634], [1637], False, [1633])"
    by (simp add: cps_def match_here_def Let_def is_digit_def two_scripts_def)
  from th r have "float_of_group two_scripts ([1633, 1634], [1637], False, [1633]) =
      (let q = (of_nat (positional two_scripts [1633, 1634])
                 + of_nat (positional two_scripts [1637]) / 10 ^ length [1637 :: nat])
                 * (if False then 1 / 10 ^ positional two_scripts [1633]
                    else 10 ^ positional two_scripts [1633])
       in if 2 ^ 1024 - 2 ^ 970 \<le> q then PInf
          else if q \<le> 1 / 2 ^ 1075 then Fin 0 else Fin q)"
    by blast
  then have v: "float_of_group two_scripts ([1633, 1634], [1637], False, [1633]) = Fin 125"
    by (simp add: positional_def digit_val_def two_scripts_def lessThan_Suc numeral_2_eq_2 Let_def)
  from th two_scripts_table r v show ?thesis
    by blast
qed

text \<open>
  A log without a line that holds a match: no value is collected, and the list of
  deviations of line 111 is empty.
\<close>

lemma extract_pump_values_no_match:
  assumes "decimal_table dv" and "\<forall>l\<in>set lns. \<not> contains_pump dv l"
  shows "extract_pump_values dv lns = ([], [])"
proof -
  from assms(2) have "filter (contains_pump dv) lns = []"
    by (simp add: filter_empty_conv)
  then have "pump_loop dv lns [] = []"
    by (simp only: pump_loop_filter re_search_iff [OF assms(1)] list.map append_Nil)
  then show ?thesis
    by (simp add: extract_pump_values_def percentage_deviation_def)
qed

lemma argmin_loop_nan:
  assumes "\<exists>y\<in>set ys. is_nan y"
  shows "i \<le> argmin_loop mp m i ys \<and> argmin_loop mp m i ys < i + length ys \<and>
         is_nan (ys ! (argmin_loop mp m i ys - i)) \<and>
         (\<forall>j<argmin_loop mp m i ys - i. \<not> is_nan (ys ! j))"
  using assms
proof (induction ys arbitrary: mp m i)
  case Nil
  then show ?case by simp
next
  case (Cons x xs)
  show ?case
  proof (cases "is_nan x")
    case True
    then have "\<not> fl_ge x mp" by (cases x) simp_all
    with True show ?thesis by simp
  next
    case False
    with Cons.prems have ex: "\<exists>y\<in>set xs. is_nan y" by simp
    define mp' where "mp' = (if \<not> fl_ge x mp then x else mp)"
    define m' where "m' = (if \<not> fl_ge x mp then i else m)"
    have eq: "argmin_loop mp m i (x # xs) = argmin_loop mp' m' (Suc i) xs"
      using False by (simp add: mp'_def m'_def)
    have "Suc i \<le> argmin_loop mp' m' (Suc i) xs \<and>
          argmin_loop mp' m' (Suc i) xs < Suc i + length xs \<and>
          is_nan (xs ! (argmin_loop mp' m' (Suc i) xs - Suc i)) \<and>
          (\<forall>j<argmin_loop mp' m' (Suc i) xs - Suc i. \<not> is_nan (xs ! j))"
      by (rule Cons.IH [OF ex])
    then have a: "Suc i \<le> argmin_loop mp' m' (Suc i) xs"
      and b: "argmin_loop mp' m' (Suc i) xs < Suc i + length xs"
      and c: "is_nan (xs ! (argmin_loop mp' m' (Suc i) xs - Suc i))"
      and d: "\<forall>j<argmin_loop mp' m' (Suc i) xs - Suc i. \<not> is_nan (xs ! j)"
      by simp_all
    define k where "k = argmin_loop mp' m' (Suc i) xs"
    from a have ki: "k - i = Suc (k - Suc i)"
      unfolding k_def by simp
    have "\<forall>j<k - i. \<not> is_nan ((x # xs) ! j)"
    proof (intro allI impI)
      fix j assume "j < k - i"
      then show "\<not> is_nan ((x # xs) ! j)"
        using False d ki unfolding k_def [symmetric] by (cases j) simp_all
    qed
    moreover have "is_nan ((x # xs) ! (k - i))"
      using c ki unfolding k_def [symmetric] by simp
    ultimately show ?thesis
      unfolding eq k_def [symmetric] using a b unfolding k_def [symmetric] by simp
  qed
qed

lemma argmin_first_nan:
  assumes "argmin xs = Inr k" and "\<exists>x\<in>set xs. is_nan x"
  shows "k < length xs \<and> is_nan (xs ! k) \<and> (\<forall>j<k. \<not> is_nan (xs ! j))"
proof (cases xs)
  case Nil
  with assms(2) show ?thesis by simp
next
  case (Cons x rest)
  show ?thesis
  proof (cases "is_nan x")
    case True
    with Cons assms(1) show ?thesis by (simp add: argmin_def)
  next
    case False
    with Cons assms(2) have ex: "\<exists>y\<in>set rest. is_nan y" by simp
    from Cons False assms(1) have k: "k = argmin_loop x 0 1 rest"
      by (simp add: argmin_def)
    have "1 \<le> argmin_loop x 0 1 rest \<and> argmin_loop x 0 1 rest < 1 + length rest \<and>
          is_nan (rest ! (argmin_loop x 0 1 rest - 1)) \<and>
          (\<forall>j<argmin_loop x 0 1 rest - 1. \<not> is_nan (rest ! j))"
      by (rule argmin_loop_nan [OF ex])
    then have a: "1 \<le> k" and b: "k < 1 + length rest" and c: "is_nan (rest ! (k - 1))"
      and d: "\<forall>j<k - 1. \<not> is_nan (rest ! j)"
      unfolding k by simp_all
    from a obtain k' where k': "k = Suc k'" by (cases k) auto
    have "\<forall>j<k. \<not> is_nan ((x # rest) ! j)"
    proof (intro allI impI)
      fix j assume "j < k"
      then show "\<not> is_nan ((x # rest) ! j)"
        using False d k' by (cases j) simp_all
    qed
    with b c k' Cons show ?thesis by simp
  qed
qed

lemma fl_sub_same: "fl_sub x x = (if is_fin x then Fin 0 else NaN)"
  by (cases x) (simp_all add: fl_sub_def)

text \<open>
  C4 (as stated). With \<open>from_max\<close> true the first returned timepoint would be 0 whenever
  the index of the minimum of the signal is well defined. In the file below the time
  cell of the first data row is \<open>inf\<close>; the window means -1 and 0 are finite, their
  minimum is at the index 0 alone, and the first returned timepoint is NaN.
\<close>

theorem first_timepoint_counterexample:
  "load_TA [[Txt ''header''], [Txt ''header''],
            [Num (Fin 0), Num (Fin 500), Num (Fin 600), Num (Fin 700)],
            [Num PInf, Num (Fin (- 1)), Num (Fin (- 1)), Num (Fin 0)],
            [Num (Fin 1), Num (Fin 0), Num (Fin 0), Num (Fin 0)]] =
     Inr ([Fin 500, Fin 600, Fin 700], [PInf, Fin 1],
          [[Fin (- 1), Fin (- 1), Fin 0], [Fin 0, Fin 0, Fin 0]]) \<and>
   resolve [Fin 500, Fin 600, Fin 700] [Fin 500, Fin 700] = Inr [0, 2] \<and>
   raw_signal [[Fin (- 1), Fin (- 1), Fin 0], [Fin 0, Fin 0, Fin 0]] 0 2 = [Fin (- 1), Fin 0] \<and>
   argmin [Fin (- 1), Fin 0] = Inr 0 \<and>
   plot_bleach [[Txt ''header''], [Txt ''header''],
            [Num (Fin 0), Num (Fin 500), Num (Fin 600), Num (Fin 700)],
            [Num PInf, Num (Fin (- 1)), Num (Fin (- 1)), Num (Fin 0)],
            [Num (Fin 1), Num (Fin 0), Num (Fin 0), Num (Fin 0)]]
       [Fin 500, Fin 700] False True True (Fin 0) =
     Inr ([NaN, NInf], [Fin (- 1), Fin 0]) \<and>
   [NaN, NInf] ! 0 \<noteq> Fin 0"
proof -
  have l: "load_TA [[Txt ''header''], [Txt ''header''],
            [Num (Fin 0), Num (Fin 500), Num (Fin 600), Num (Fin 700)],
            [Num PInf, Num (Fin (- 1)), Num (Fin (- 1)), Num (Fin 0)],
            [Num (Fin 1), Num (Fin 0), Num (Fin 0), Num (Fin 0)]] =
     Inr ([Fin 500, Fin 600, Fin 700], [PInf, Fin 1],
          [[Fin (- 1), Fin (- 1), Fin 0], [Fin 0, Fin 0, Fin 0]])"
    by (simp add: load_TA_def genfromtxt_def ndim_def)
  have r: "raw_signal [[Fin (- 1), Fin (- 1), Fin 0], [Fin 0, Fin 0, Fin 0]] 0 2 =
      [Fin (- 1), Fin 0]"
    by (simp add: raw_signal_def slice_def np_mean_def np_sum_def)
  have k: "argmin [Fin (- 1), Fin 0] = Inr 0"
    by (simp add: argmin_def)
  have k': "argmin (raw_signal [[Fin (- 1), Fin (- 1), Fin 0], [Fin 0, Fin 0, Fin 0]] 0 2) = Inr 0"
    unfolding r by (rule k)
  have p: "plot_bleach [[Txt ''header''], [Txt ''header''],
            [Num (Fin 0), Num (Fin 500), Num (Fin 600), Num (Fin 700)],
            [Num PInf, Num (Fin (- 1)), Num (Fin (- 1)), Num (Fin 0)],
            [Num (Fin 1), Num (Fin 0), Num (Fin 0), Num (Fin 0)]]
       [Fin 500, Fin 700] False True True (Fin 0) =
     Inr ([NaN, NInf], [Fin (- 1), Fin 0])"
    using plot_bleach_run [OF l scenario_resolve k', of False True True "Fin 0"]
    by (simp add: r truncate_def unit_transform_def normalise_signal_def fl_sub_def)
  from l scenario_resolve r k p show ?thesis
    by simp
qed

text \<open>
  C4 (amended). The truncation index of \<open>plot_bleach\<close> is the argmin of the window mean
  taken before the unit transform, whatever \<open>from_max\<close> and \<open>mOD\<close> are: the first index
  of the least mean when no mean is NaN, the index of the first NaN otherwise. With
  \<open>from_max\<close> true the timepoints and the signal both start at that index, normalised
  (divided by the maximum of the truncated signal) or not. The first returned timepoint
  is 0 when the timepoint at the index is a finite number, and NaN when it is an
  infinity or NaN.
\<close>

theorem plot_bleach_truncates_at_argmin:
  assumes "load_TA f = Inr (wl, tp, I)" and "resolve wl wls = Inr (lo # hi # rest)"
  shows "\<exists>k. argmin (raw_signal I lo hi) = Inr k \<and> k < length tp \<and>
           ((\<forall>x\<in>set (raw_signal I lo hi). \<not> is_nan x) \<longrightarrow>
              (\<forall>j<length tp. fl_ge (raw_signal I lo hi ! j) (raw_signal I lo hi ! k)) \<and>
              (\<forall>j<k. \<not> fl_ge (raw_signal I lo hi ! k) (raw_signal I lo hi ! j))) \<and>
           ((\<exists>x\<in>set (raw_signal I lo hi). is_nan x) \<longrightarrow>
              is_nan (raw_signal I lo hi ! k) \<and> (\<forall>j<k. \<not> is_nan (raw_signal I lo hi ! j))) \<and>
           plot_bleach f wls False mOD True c =
             Inr (map (\<lambda>t. fl_sub t (tp ! k)) (drop k tp),
                  drop k (unit_transform mOD c (raw_signal I lo hi))) \<and>
           (\<exists>m. amax (drop k (unit_transform mOD c (raw_signal I lo hi))) = Inr m \<and>
                plot_bleach f wls True mOD True c =
                  Inr (map (\<lambda>t. fl_sub t (tp ! k)) (drop k tp),
                       map (\<lambda>x. fl_div x m) (drop k (unit_transform mOD c (raw_signal I lo hi))))) \<and>
           map (\<lambda>t. fl_sub t (tp ! k)) (drop k tp) ! 0 = (if is_fin (tp ! k) then Fin 0 else NaN)"
proof -
  let ?raw = "raw_signal I lo hi"
  from plot_bleach_total [OF assms, of True mOD c]
  obtain k m where k: "argmin ?raw = Inr k" and kl: "k < length tp"
    and p0: "plot_bleach f wls False mOD True c =
               Inr (map (\<lambda>t. fl_sub t (tp ! k)) (drop k tp), drop k (unit_transform mOD c ?raw))"
    and m: "amax (drop k (unit_transform mOD c ?raw)) = Inr m"
    and p1: "plot_bleach f wls True mOD True c =
               Inr (map (\<lambda>t. fl_sub t (tp ! k)) (drop k tp),
                    map (\<lambda>x. fl_div x m) (drop k (unit_transform mOD c ?raw)))"
    by auto
  have len: "length ?raw = length tp"
    using load_TA_shape [OF assms(1)] by (simp add: raw_signal_def)
  have mn: "(\<forall>x\<in>set ?raw. \<not> is_nan x) \<longrightarrow>
              (\<forall>j<length tp. fl_ge (?raw ! j) (?raw ! k)) \<and> (\<forall>j<k. \<not> fl_ge (?raw ! k) (?raw ! j))"
    using argmin_first_min [OF k] len by simp
  have nn: "(\<exists>x\<in>set ?raw. is_nan x) \<longrightarrow> is_nan (?raw ! k) \<and> (\<forall>j<k. \<not> is_nan (?raw ! j))"
    using argmin_first_nan [OF k] by blast
  have z: "map (\<lambda>t. fl_sub t (tp ! k)) (drop k tp) ! 0 = (if is_fin (tp ! k) then Fin 0 else NaN)"
    using kl by (simp add: fl_sub_same)
  from k kl mn nn p0 m p1 z show ?thesis
    by blast
qed

theorem plot_bleach_truncates_at_argmin_witness:
  "load_TA bleach_file =
     Inr ([Fin 500, Fin 600, Fin 700], [Fin 5, Fin 7, Fin 10],
          [[Fin 0, Fin 0, Fin 0], [Fin (- 4), Fin (- 2), Fin 0], [Fin (- 2), Fin 0, Fin 0]]) \<and>
   resolve [Fin 500, Fin 600, Fin 700] [Fin 500, Fin 700] = Inr [0, 2] \<and>
   argmin [Fin 0, Fin (- 3), Fin (- 1)] = Inr 1 \<and>
   plot_bleach bleach_file [Fin 500, Fin 700] False False True (Fin 0) =
     Inr ([Fin 0, Fin 3], [Fin 6.84, Fin 2.28])"
proof -
  from plot_bleach_truncates_at_argmin [OF bleach_load scenario_resolve, of False "Fin 0"]
  obtain k where "argmin [Fin 0, Fin (- 3), Fin (- 1)] = Inr k"
    and p: "plot_bleach bleach_file [Fin 500, Fin 700] False False True (Fin 0) =
             Inr (map (\<lambda>t. fl_sub t ([Fin 5, Fin 7, Fin 10] ! k)) (drop k [Fin 5, Fin 7, Fin 10]),
                  drop k (unit_transform False (Fin 0) [Fin 0, Fin (- 3), Fin (- 1)]))"
    unfolding bleach_raw by blast
  then have "k = 1"
    by (simp add: bleach_argmin)
  with p have "plot_bleach bleach_file [Fin 500, Fin 700] False False True (Fin 0) =
     Inr ([Fin 0, Fin 3], [Fin 6.84, Fin 2.28])"
    by (simp add: unit_transform_def fl_sub_def)
  with bleach_load scenario_resolve bleach_argmin show ?thesis
    by blast
qed

lemma is_nan_abs: "is_nan (fl_abs y) = is_nan y"
  by (cases y) simp_all

lemma is_nan_sub: "\<not> is_nan a \<Longrightarrow> \<not> is_nan v \<Longrightarrow> is_nan (fl_sub a v) \<Longrightarrow> a = v"
  by (cases a; cases v) (simp_all add: fl_sub_def)

lemma abs_le_zero: "fl_ge (Fin 0) (fl_abs y) \<Longrightarrow> y = Fin 0"
  by (cases y) simp_all

lemma sub_eq_zero: "fl_sub a v = Fin 0 \<Longrightarrow> a = v"
  by (cases a; cases v) (simp_all add: fl_sub_def)

text \<open>
  C6 (as stated). For every requested value that is on the axis, nearest-match
  resolution would return the index of that value. The axis 500, NaN, 700 is what
  \<open>load_TA\<close> gives for a wavelength row with a cell that is not a number; the request
  700 is on it at the index 2, and the index returned is 1.
\<close>

theorem nearest_index_nan_counterexample:
  "load_TA [[Txt ''header''], [Txt ''header''],
            [Num (Fin 0), Num (Fin 500), Txt ''x'', Num (Fin 700)],
            [Num (Fin 0), Num (Fin 1), Num (Fin 2), Num (Fin 3)],
            [Num (Fin 1), Num (Fin 4), Num (Fin 5), Num (Fin 6)]] =
     Inr ([Fin 500, NaN, Fin 700], [Fin 0, Fin 1],
          [[Fin 1, Fin 2, Fin 3], [Fin 4, Fin 5, Fin 6]]) \<and>
   [Fin 500, NaN, Fin 700] ! 2 = Fin 700 \<and>
   nearest_index [Fin 500, NaN, Fin 700] (Fin 700) = Inr 1 \<and>
   [Fin 500, NaN, Fin 700] ! 1 \<noteq> Fin 700"
  by (simp add: load_TA_def genfromtxt_def ndim_def nearest_index_def argmin_def fl_sub_def)

text \<open>
  C6 (amended). Nearest-match resolution of a requested wavelength or time, the argmin
  of the absolute differences, on an axis without NaN: when the requested value is on
  the axis, the index returned is that of its first occurrence; no earlier entry is at
  the distance of the returned one, and when every distance is a number the returned
  entry has the least distance and every earlier entry is strictly farther, so of the
  entries at equal least distance the one with the lowest index is returned.
\<close>

theorem nearest_index_exact_and_first:
  assumes "axis \<noteq> []" and "\<forall>a\<in>set axis. \<not> is_nan a"
  shows "\<exists>k. nearest_index axis v = Inr k \<and> resolve axis [v] = Inr [k] \<and> k < length axis \<and>
           (v \<in> set axis \<longrightarrow> axis ! k = v \<and> (\<forall>j<k. axis ! j \<noteq> v)) \<and>
           (\<forall>j<k. fl_abs (fl_sub (axis ! j) v) \<noteq> fl_abs (fl_sub (axis ! k) v)) \<and>
           ((\<forall>j<length axis. \<not> is_nan (fl_abs (fl_sub (axis ! j) v))) \<longrightarrow>
              (\<forall>j<length axis.
                 fl_ge (fl_abs (fl_sub (axis ! j) v)) (fl_abs (fl_sub (axis ! k) v))) \<and>
              (\<forall>j<k. \<not> fl_ge (fl_abs (fl_sub (axis ! k) v)) (fl_abs (fl_sub (axis ! j) v)))) \<and>
           (\<forall>ws x. axis = map Fin ws \<longrightarrow> v = Fin x \<longrightarrow>
              (\<forall>j<length ws. \<bar>ws ! k - x\<bar> \<le> \<bar>ws ! j - x\<bar>) \<and>
              (\<forall>j<k. \<bar>ws ! k - x\<bar> < \<bar>ws ! j - x\<bar>))"
proof -
  define d where "d = map (\<lambda>a. fl_abs (fl_sub a v)) axis"
  have dl: "length d = length axis"
    by (simp add: d_def)
  have dn: "\<And>j. j < length axis \<Longrightarrow> d ! j = fl_abs (fl_sub (axis ! j) v)"
    by (simp add: d_def)
  have ne: "d \<noteq> []"
    using assms(1) by (simp add: d_def)
  from argmin_bound [OF ne] obtain k where k: "argmin d = Inr k" and kl: "k < length axis"
    using dl by auto
  have n: "nearest_index axis v = Inr k"
    using k by (simp add: nearest_index_def d_def)
  then have r: "resolve axis [v] = Inr [k]"
    by simp
  have an: "\<And>j. j < length axis \<Longrightarrow> \<not> is_nan (axis ! j)"
    using assms(2) by simp
  have min: "(\<forall>j<length axis. \<not> is_nan (d ! j)) \<longrightarrow>
               (\<forall>j<length axis. fl_ge (d ! j) (d ! k)) \<and> (\<forall>j<k. \<not> fl_ge (d ! k) (d ! j))"
  proof
    assume "\<forall>j<length axis. \<not> is_nan (d ! j)"
    then have "\<forall>x\<in>set d. \<not> is_nan x"
      using dl by (auto simp: in_set_conv_nth)
    from argmin_first_min [OF k this] dl
    show "(\<forall>j<length axis. fl_ge (d ! j) (d ! k)) \<and> (\<forall>j<k. \<not> fl_ge (d ! k) (d ! j))"
      by simp
  qed
  have nan: "(\<exists>j<length axis. is_nan (d ! j)) \<longrightarrow> is_nan (d ! k) \<and> (\<forall>j<k. \<not> is_nan (d ! j))"
  proof
    assume "\<exists>j<length axis. is_nan (d ! j)"
    then have "\<exists>x\<in>set d. is_nan x"
      using dl by (metis nth_mem)
    from argmin_first_nan [OF k this]
    show "is_nan (d ! k) \<and> (\<forall>j<k. \<not> is_nan (d ! j))"
      by simp
  qed
  have diff: "\<forall>j<k. d ! j \<noteq> d ! k"
  proof (intro allI impI notI)
    fix j assume j: "j < k" and e: "d ! j = d ! k"
    show False
    proof (cases "\<exists>i<length axis. is_nan (d ! i)")
      case True
      with nan j e show False by auto
    next
      case False
      with kl have "\<not> is_nan (d ! k)" by blast
      then have "fl_ge (d ! k) (d ! k)" by (rule fl_ge_refl)
      with False min j e show False by auto
    qed
  qed
  have exact: "v \<in> set axis \<longrightarrow> axis ! k = v \<and> (\<forall>j<k. axis ! j \<noteq> v)"
  proof
    assume "v \<in> set axis"
    then obtain j0 where j0: "j0 < length axis" and v: "axis ! j0 = v"
      by (auto simp: in_set_conv_nth)
    have vn: "\<not> is_nan v"
      using an [OF j0] v by simp
    have same: "\<And>j. j < length axis \<Longrightarrow> axis ! j = v \<Longrightarrow> d ! j = d ! j0"
      using dn j0 v by simp
    have kv: "axis ! k = v"
    proof (cases "\<exists>i<length axis. is_nan (d ! i)")
      case True
      with nan have "is_nan (d ! k)" by blast
      then have "is_nan (fl_sub (axis ! k) v)"
        using dn [OF kl] by (simp add: is_nan_abs)
      with an [OF kl] vn show ?thesis by (rule is_nan_sub)
    next
      case False
      then have "\<not> is_nan (d ! j0)" using j0 by blast
      then have "is_fin v"
        using dn [OF j0] v by (cases v) (simp_all add: fl_sub_def)
      then have "d ! j0 = Fin 0"
        using dn [OF j0] v by (simp add: fl_sub_same)
      moreover from False min j0 have "fl_ge (d ! j0) (d ! k)" by blast
      ultimately have "fl_ge (Fin 0) (fl_abs (fl_sub (axis ! k) v))"
        using dn [OF kl] by simp
      then have "fl_sub (axis ! k) v = Fin 0" by (rule abs_le_zero)
      then show ?thesis by (rule sub_eq_zero)
    qed
    have "\<forall>j<k. axis ! j \<noteq> v"
    proof (intro allI impI notI)
      fix j assume j: "j < k" and e: "axis ! j = v"
      from j kl have jl: "j < length axis" by simp
      have "d ! j = d ! k"
        using same [OF jl e] same [OF kl kv] by simp
      with diff j show False by blast
    qed
    with kv show "axis ! k = v \<and> (\<forall>j<k. axis ! j \<noteq> v)" by simp
  qed
  have rat: "\<forall>ws x. axis = map Fin ws \<longrightarrow> v = Fin x \<longrightarrow>
              (\<forall>j<length ws. \<bar>ws ! k - x\<bar> \<le> \<bar>ws ! j - x\<bar>) \<and>
              (\<forall>j<k. \<bar>ws ! k - x\<bar> < \<bar>ws ! j - x\<bar>)"
  proof (intro allI impI)
    fix ws x assume a: "axis = map Fin ws" and b: "v = Fin x"
    have dj: "\<And>j. j < length ws \<Longrightarrow> d ! j = Fin \<bar>ws ! j - x\<bar>"
      using dn a b by (simp add: fl_sub_Fin)
    have "\<forall>j<length axis. \<not> is_nan (d ! j)"
      using dj a by simp
    with min have "(\<forall>j<length axis. fl_ge (d ! j) (d ! k)) \<and> (\<forall>j<k. \<not> fl_ge (d ! k) (d ! j))"
      by blast
    then show "(\<forall>j<length ws. \<bar>ws ! k - x\<bar> \<le> \<bar>ws ! j - x\<bar>) \<and>
              (\<forall>j<k. \<bar>ws ! k - x\<bar> < \<bar>ws ! j - x\<bar>)"
      using dj kl a by (auto simp: not_le)
  qed
  have diff': "\<forall>j<k. fl_abs (fl_sub (axis ! j) v) \<noteq> fl_abs (fl_sub (axis ! k) v)"
    using diff dn kl by auto
  have min': "(\<forall>j<length axis. \<not> is_nan (fl_abs (fl_sub (axis ! j) v))) \<longrightarrow>
              (\<forall>j<length axis.
                 fl_ge (fl_abs (fl_sub (axis ! j) v)) (fl_abs (fl_sub (axis ! k) v))) \<and>
              (\<forall>j<k. \<not> fl_ge (fl_abs (fl_sub (axis ! k) v)) (fl_abs (fl_sub (axis ! j) v)))"
    using min dn kl by auto
  from n r kl exact diff' min' rat show ?thesis
    by blast
qed

theorem nearest_index_exact_and_first_witness:
  "[Fin 500, Fin 600, PInf, Fin 600] \<noteq> [] \<and>
   nearest_index [Fin 500, Fin 600, PInf, Fin 600] (Fin 600) = Inr 1 \<and>
   nearest_index [Fin 500, Fin 600, PInf, Fin 600] (Fin 550) = Inr 0 \<and>
   nearest_index [Fin 500, Fin 600, PInf, Fin 600] PInf = Inr 2 \<and>
   (\<exists>k. nearest_index [Fin 500, Fin 600, PInf, Fin 600] (Fin 600) = Inr k \<and>
        [Fin 500, Fin 600, PInf, Fin 600] ! k = Fin 600)"
proof -
  have ne: "[Fin 500, Fin 600, PInf, Fin 600] \<noteq> []"
    and nn: "\<forall>a\<in>set [Fin 500, Fin 600, PInf, Fin 600]. \<not> is_nan a"
    by simp_all
  have a: "nearest_index [Fin 500, Fin 600, PInf, Fin 600] (Fin 600) = Inr 1"
    and b: "nearest_index [Fin 500, Fin 600, PInf, Fin 600] (Fin 550) = Inr 0"
    and c: "nearest_index [Fin 500, Fin 600, PInf, Fin 600] PInf = Inr 2"
    by (simp_all add: nearest_index_def argmin_def fl_sub_def)
  from nearest_index_exact_and_first [OF ne nn, of "Fin 600"]
  have "\<exists>k. nearest_index [Fin 500, Fin 600, PInf, Fin 600] (Fin 600) = Inr k \<and>
        [Fin 500, Fin 600, PInf, Fin 600] ! k = Fin 600"
    by auto
  with ne a b c show ?thesis
    by blast
qed

lemma load_TA_well_formed_iff: "(\<exists>r. load_TA f = Inr r) = well_formed f"
  unfolding load_TA_succeeds_iff well_formed_def data_rows_def by blast

lemma well_formed_shape: "map length f = map length g \<Longrightarrow> well_formed f = well_formed g"
  using load_TA_same_shape [of f g]
  unfolding load_TA_well_formed_iff by blast

lemma load_TA_well_formed:
  assumes "well_formed f"
  shows "load_TA f =
           Inr (map convert (tl (hd (data_rows f))),
                map (\<lambda>l. convert (hd l)) (tl (data_rows f)),
                map (\<lambda>l. map convert (tl l)) (tl (data_rows f)))"
proof -
  from assms have n: "1 < length (data_rows f)" "1 < length (hd (data_rows f))"
    and a: "list_all (\<lambda>l. length l = length (hd (data_rows f))) (data_rows f)"
    by (simp_all add: well_formed_def)
  from n(1) obtain r0 r1 rs where d: "data_rows f = r0 # r1 # rs"
    by (cases "data_rows f"; cases "tl (data_rows f)") auto
  from a d have ne: "\<forall>l\<in>set (r1 # rs). l \<noteq> []"
    using n(2) by (auto simp: list_all_iff)
  have g: "genfromtxt f = Inr (map (map convert) (data_rows f))"
    using a unfolding genfromtxt_rows data_rows_def [symmetric] by simp
  have nd: "\<not> ndim (map (map convert) (data_rows f)) < 2"
    using n d by (simp add: ndim_two)
  have h: "map hd (map (map convert) (r1 # rs)) = map (\<lambda>l. convert (hd l)) (r1 # rs)"
    using ne by (auto simp: hd_map)
  have t: "map tl (map (map convert) (r1 # rs)) = map (\<lambda>l. map convert (tl l)) (r1 # rs)"
    by (simp add: map_tl)
  show ?thesis
    unfolding load_TA_def g using nd h t by (simp add: d Let_def map_tl)
qed

text \<open>
  C7 (as stated). \<open>load_TA\<close> would fail for every file with a cell that is not a number
  outside the two skipped header lines. The file below has four lines and the cell
  \<open>x\<close> in its second data row; it loads, and the cell is read as NaN.
\<close>

theorem load_TA_text_cell_counterexample:
  "load_TA [[Txt ''header''], [Txt ''header''],
            [Num (Fin 0), Num (Fin 500), Num (Fin 600)],
            [Num (Fin 0), Txt ''x'', Num (Fin 2)]] =
     Inr ([Fin 500, Fin 600], [Fin 0], [[NaN, Fin 2]])"
  by (simp add: load_TA_def genfromtxt_def ndim_def)

text \<open>
  C7 (amended). \<open>load_TA\<close> fails for every file shorter than 3 lines and for every file
  in which two lines with cells, after the two skipped header lines, differ in their
  number of cells. A cell that is not a number does not make it fail: it is read as
  NaN, and whether \<open>load_TA\<close> returns depends only on the number of cells of each line.
  On well-formed input, and on no other, it returns: the wavelengths are the first data
  row without its first cell, the timepoints the first cells of the other rows, the
  intensities the rest of these rows, with one row of intensities per timepoint and one
  column per wavelength.
\<close>

theorem load_TA_failures_and_shape:
  "(length f < 3 \<longrightarrow> load_TA f = Inl IndexError) \<and>
   (l1 \<in> set (drop 2 f) \<longrightarrow> l2 \<in> set (drop 2 f) \<longrightarrow> l1 \<noteq> [] \<longrightarrow> l2 \<noteq> [] \<longrightarrow>
      length l1 \<noteq> length l2 \<longrightarrow> load_TA f = Inl ValueError) \<and>
   (\<exists>r. load_TA f = Inr r) = well_formed f \<and>
   (map length f = map length g \<longrightarrow> well_formed f = well_formed g) \<and>
   (well_formed f \<longrightarrow>
      load_TA f =
        Inr (map convert (tl (hd (data_rows f))),
             map (\<lambda>l. convert (hd l)) (tl (data_rows f)),
             map (\<lambda>l. map convert (tl l)) (tl (data_rows f))) \<and>
      0 < length (tl (hd (data_rows f))) \<and> 0 < length (tl (data_rows f))) \<and>
   (load_TA f = Inr (wl, tp, I) \<longrightarrow>
      length I = length tp \<and> (\<forall>row\<in>set I. length row = length wl) \<and>
      0 < length tp \<and> 0 < length wl) \<and>
   convert (Txt s) = NaN \<and> convert (Num v) = v"
proof -
  have w: "well_formed f \<longrightarrow>
      load_TA f =
        Inr (map convert (tl (hd (data_rows f))),
             map (\<lambda>l. convert (hd l)) (tl (data_rows f)),
             map (\<lambda>l. map convert (tl l)) (tl (data_rows f))) \<and>
      0 < length (tl (hd (data_rows f))) \<and> 0 < length (tl (data_rows f))"
    using load_TA_well_formed [of f] by (auto simp: well_formed_def)
  have sh: "load_TA f = Inr (wl, tp, I) \<longrightarrow>
      length I = length tp \<and> (\<forall>row\<in>set I. length row = length wl) \<and>
      0 < length tp \<and> 0 < length wl"
    using load_TA_shape [of f wl tp I] by auto
  from w sh load_TA_short [of f] load_TA_ragged [of l1 f l2] load_TA_well_formed_iff [of f]
    well_formed_shape [of f g]
  show ?thesis
    by simp
qed

theorem load_TA_failures_and_shape_witness:
  "length [[Txt ''header'']] < 3 \<and>
   load_TA [[Txt ''header'']] = Inl IndexError \<and>
   load_TA [[], [], [Num (Fin 0), Num (Fin 500), Num (Fin 600)], [Num (Fin 0), Num (Fin 1)]] =
     Inl ValueError \<and>
   well_formed scenario_file \<and>
   load_TA scenario_file =
     Inr ([Fin 500, Fin 600, Fin 700], [Fin 0, Fin 1, Fin 2],
          [[Fin 1, Fin 2, Fin 3], [Fin 4, Fin 5, Fin 6], [Fin 7, Fin 8, Fin 9]]) \<and>
   \<not> well_formed [[Txt ''header''], [Txt ''header''], [Num (Fin 0), Num (Fin 500), Num (Fin 600)]] \<and>
   load_TA [[Txt ''header''], [Txt ''header''], [Num (Fin 0), Num (Fin 500), Num (Fin 600)]] =
     Inl IndexError \<and>
   well_formed [[Txt ''header''], [Txt ''header''],
                [Num (Fin 0), Num (Fin 500), Num (Fin 600)],
                [Num (Fin 0), Txt ''x'', Num (Fin 2)]]"
proof -
  have 1: "load_TA [[Txt ''header'']] = Inl IndexError"
    using load_TA_failures_and_shape [of "[[Txt ''header'']]"] by simp
  have 2: "load_TA [[], [], [Num (Fin 0), Num (Fin 500), Num (Fin 600)], [Num (Fin 0), Num (Fin 1)]] =
     Inl ValueError"
    using load_TA_failures_and_shape
      [of "[[], [], [Num (Fin 0), Num (Fin 500), Num (Fin 600)], [Num (Fin 0), Num (Fin 1)]]"
        "[Num (Fin 0), Num (Fin 500), Num (Fin 600)]" "[Num (Fin 0), Num (Fin 1)]"]
    by simp
  have 3: "well_formed scenario_file"
    by (simp add: well_formed_def data_rows_def scenario_file_def)
  have 4: "load_TA scenario_file =
     Inr ([Fin 500, Fin 600, Fin 700], [Fin 0, Fin 1, Fin 2],
          [[Fin 1, Fin 2, Fin 3], [Fin 4, Fin 5, Fin 6], [Fin 7, Fin 8, Fin 9]])"
    using load_TA_failures_and_shape [of scenario_file] 3
    by (simp add: data_rows_def scenario_file_def)
  have 5: "\<not> well_formed [[Txt ''header''], [Txt ''header''],
      [Num (Fin 0), Num (Fin 500), Num (Fin 600)]]"
    by (simp add: well_formed_def data_rows_def)
  have 6: "load_TA [[Txt ''header''], [Txt ''header''],
      [Num (Fin 0), Num (Fin 500), Num (Fin 600)]] = Inl IndexError"
    by (simp add: load_TA_def genfromtxt_def ndim_def)
  have 7: "well_formed [[Txt ''header''], [Txt ''header''],
                [Num (Fin 0), Num (Fin 500), Num (Fin 600)],
                [Num (Fin 0), Txt ''x'', Num (Fin 2)]]"
    using load_TA_failures_and_shape [of "[[Txt ''header''], [Txt ''header''],
                [Num (Fin 0), Num (Fin 500), Num (Fin 600)],
                [Num (Fin 0), Num (Fin 1), Num (Fin 2)]]" _ _ "[[Txt ''header''], [Txt ''header''],
                [Num (Fin 0), Num (Fin 500), Num (Fin 600)],
                [Num (Fin 0), Txt ''x'', Num (Fin 2)]]"]
    by (simp add: well_formed_def data_rows_def)
  from 1 2 3 4 5 6 7 show ?thesis by simp
qed

end
